theory Spec2Isabelle
  imports Complex_Main
begin

section \<open>Python floats: binary64 arithmetic\<close>

text \<open>
  A Python \<open>float\<close> is an IEEE-754 binary64 number. A finite float is modelled as the
  real number it denotes; every arithmetic operation of the source returns the exact
  result rounded to the nearest number with a 53-bit significand, ties to the even
  significand. The exponent is left unbounded: overflow to infinity and subnormal numbers
  are outside the model (the voltages, currents and percentages of the monitor stay far
  from both).
\<close>

definition round_even :: "real \<Rightarrow> int" where
  "round_even x =
     (let f = \<lfloor>x\<rfloor>; d = x - of_int f
      in if d < 1/2 then f else if 1/2 < d then f + 1 else if even f then f else f + 1)"

text \<open>The binary exponent \<open>e\<close> of a positive \<open>x\<close>: \<open>2^e \<le> x < 2^(e+1)\<close>.\<close>

function expo_up :: "real \<Rightarrow> int" where
  "expo_up x = (if x < 2 then 0 else expo_up (x / 2) + 1)"
  by pat_completeness auto
termination
proof (relation "measure (\<lambda>x. nat \<lfloor>x\<rfloor>)")
  show "wf (measure (\<lambda>x::real. nat \<lfloor>x\<rfloor>))" by simp
next
  fix x :: real
  assume "\<not> x < 2"
  then have "\<lfloor>x / 2\<rfloor> < \<lfloor>x\<rfloor>" by linarith
  moreover have "0 < \<lfloor>x\<rfloor>" using \<open>\<not> x < 2\<close> by linarith
  ultimately show "(x / 2, x) \<in> measure (\<lambda>x. nat \<lfloor>x\<rfloor>)" by simp
qed

function expo_dn :: "real \<Rightarrow> int" where
  "expo_dn x = (if x \<le> 0 \<or> 1 \<le> x then 0 else expo_dn (x * 2) - 1)"
  by pat_completeness auto
termination
proof (relation "measure (\<lambda>x. nat \<lfloor>1 / x\<rfloor>)")
  show "wf (measure (\<lambda>x::real. nat \<lfloor>1 / x\<rfloor>))" by simp
next
  fix x :: real
  assume a: "\<not> (x \<le> 0 \<or> 1 \<le> x)"
  define y where "y = 1 / x"
  have y: "1 < y" using a by (simp add: y_def)
  have e: "1 / (x * 2) = y / 2" by (simp add: y_def)
  have "1 \<le> \<lfloor>y\<rfloor>" using y by linarith
  then have "1 \<le> (of_int \<lfloor>y\<rfloor> :: real)" by linarith
  moreover have "y - 1 < of_int \<lfloor>y\<rfloor>" by linarith
  ultimately have "y / 2 < of_int \<lfloor>y\<rfloor>" by linarith
  then have "\<lfloor>y / 2\<rfloor> < \<lfloor>y\<rfloor>" by (simp add: floor_less_iff)
  moreover have "0 < \<lfloor>y\<rfloor>" using y by linarith
  ultimately show "(x * 2, x) \<in> measure (\<lambda>x. nat \<lfloor>1 / x\<rfloor>)"
    unfolding e y_def [symmetric] in_measure by simp
qed

declare expo_up.simps [simp del] expo_dn.simps [simp del]

definition expo :: "real \<Rightarrow> int" where
  "expo x = (if 1 \<le> x then expo_up x else expo_dn x)"

text \<open>Rounding to the nearest binary64 number, ties to even.\<close>

definition fl64 :: "real \<Rightarrow> real" where
  "fl64 x =
     (if x = 0 then 0
      else let u = 2 powi (expo \<bar>x\<bar> - 52)
           in sgn x * of_int (round_even (\<bar>x\<bar> / u)) * u)"

definition fadd :: "real \<Rightarrow> real \<Rightarrow> real" where
  "fadd a b = fl64 (a + b)"

definition fsub :: "real \<Rightarrow> real \<Rightarrow> real" where
  "fsub a b = fl64 (a - b)"

definition fmul :: "real \<Rightarrow> real \<Rightarrow> real" where
  "fmul a b = fl64 (a * b)"

definition fdiv :: "real \<Rightarrow> real \<Rightarrow> real" where
  "fdiv a b = fl64 (a / b)"

section \<open>Publisher: state of charge\<close>

definition min_v :: real where
  "min_v = fl64 (148 / 10)"

definition max_v :: real where
  "max_v = fl64 (1685 / 100)"

text \<open>\<open>estimate_soc(voltage)\<close>; the argument is \<open>None\<close> or a float.\<close>

definition estimate_soc :: "real option \<Rightarrow> real" where
  "estimate_soc voltage =
     (case voltage of
        None \<Rightarrow> 0
      | Some v \<Rightarrow>
          if v \<le> min_v then 0
          else if max_v \<le> v then 100
          else fmul (fdiv (fsub v min_v) (fsub max_v min_v)) 100)"

section \<open>Python string formatting\<close>

definition digit_char :: "nat \<Rightarrow> char" where
  "digit_char n = ''0123456789'' ! n"

function str_nat :: "nat \<Rightarrow> string" where
  "str_nat n = (if n < 10 then [digit_char n] else str_nat (n div 10) @ [digit_char (n mod 10)])"
  by pat_completeness auto
termination
  by (relation "measure id") auto

declare str_nat.simps [simp del]

definition str_int :: "int \<Rightarrow> string" where
  "str_int i = (if i < 0 then ''-'' @ str_nat (nat (- i)) else str_nat (nat i))"

definition zfill :: "nat \<Rightarrow> string \<Rightarrow> string" where
  "zfill d s = replicate (d - length s) CHR ''0'' @ s"

text \<open>
  The format \<open>{x:.df}\<close>: the exact value of the float rounded to \<open>d\<close> decimals, ties
  to even.
\<close>

definition format_f :: "nat \<Rightarrow> real \<Rightarrow> string" where
  "format_f d x =
     (let n = nat (round_even (\<bar>x\<bar> * 10 ^ d));
          ip = n div 10 ^ d;
          fp = n mod 10 ^ d
      in (if x < 0 then ''-'' else '''') @ str_nat ip
         @ (if d = 0 then '''' else ''.'' @ zfill d (str_nat fp)))"


section \<open>Publisher: the monitor's cycle\<close>

definition TOLERANCE :: real where
  "TOLERANCE = fl64 (1 / 1000)"

definition STABLE_THRESHOLD :: nat where
  "STABLE_THRESHOLD = 3"

definition FAILURE_THRESHOLD :: nat where
  "FAILURE_THRESHOLD = 3"

definition VALID_READ_COUNT_FOR_RECONNECT :: nat where
  "VALID_READ_COUNT_FOR_RECONNECT = 2"

text \<open>The loop's variables.\<close>

record monitor =
  sensor_connected :: bool
  consecutive_failures :: nat
  valid_read_count :: nat
  last_voltage :: "real option"
  stable_count :: nat

definition init_monitor :: monitor where
  "init_monitor =
     \<lparr>sensor_connected = False, consecutive_failures = 0, valid_read_count = 0,
      last_voltage = None, stable_count = 0\<rparr>"

text \<open>
  What the hardware answers during one iteration: the two reads at the top of the loop,
  the answer of \<open>is_sensor_present()\<close> (asked only once the failure threshold is reached)
  and the two reads after a forced reinitialization (issued only then).
\<close>

record readings =
  voltage :: "real option"
  current :: "real option"
  present :: bool
  voltage_again :: "real option"
  current_again :: "real option"

text \<open>
  What one iteration does to the outside, in order. \<open>Reset_ina226\<close> and
  \<open>Configure_ina226\<close> are the calls of \<open>reset_ina226()\<close> and \<open>configure_ina226()\<close>, each
  with its register write, its settling delay and its own print.
\<close>

datatype effect =
    Safe_read_voltage
  | Safe_read_current
  | Is_sensor_present
  | Reset_ina226
  | Configure_ina226
  | Sleep real
  | Print string
  | Send_string string

text \<open>The test \<open>voltage is None or voltage < 0.1\<close>.\<close>

definition invalid_reading :: "real option \<Rightarrow> bool" where
  "invalid_reading v = (case v of None \<Rightarrow> True | Some x \<Rightarrow> x < fl64 (1 / 10))"

definition publish_str :: "string \<Rightarrow> string \<Rightarrow> string \<Rightarrow> string" where
  "publish_str voltage_str current_str soc_str =
     ''Voltage: '' @ voltage_str @ '', Current: '' @ current_str @ '', SoC: '' @ soc_str"

definition publish :: "string \<Rightarrow> effect list" where
  "publish msg = [Print (''Publishing: '' @ msg), Send_string msg, Sleep 1]"

text \<open>The branch of an invalid reading.\<close>

definition cycle_invalid :: "monitor \<Rightarrow> readings \<Rightarrow> monitor \<times> effect list" where
  "cycle_invalid s r =
     (let failures = consecutive_failures s + 1;
          probe = (FAILURE_THRESHOLD \<le> failures);
          reinit = (probe \<and> present r)
      in (s\<lparr>sensor_connected := False,
            consecutive_failures := (if reinit then 0 else failures),
            valid_read_count := 0,
            stable_count := 0\<rparr>,
          [Safe_read_voltage, Safe_read_current]
          @ (if sensor_connected s then [Print ''Battery Disconnected''] else [])
          @ (if probe then [Is_sensor_present] else [])
          @ (if reinit
             then [Print ''Reinitializing sensor due to consecutive failures...'',
                   Reset_ina226, Configure_ina226, Sleep (1 / 2)]
             else [])
          @ publish (publish_str ''Battery Disconnected'' ''N/A'' ''N/A'')))"

text \<open>The branch of a valid reading \<open>v\<close>.\<close>

definition cycle_valid :: "monitor \<Rightarrow> readings \<Rightarrow> real \<Rightarrow> monitor \<times> effect list" where
  "cycle_valid s r v =
     (let count = valid_read_count s + 1;
          soc_percentage = estimate_soc (Some v);
          voltage_str = format_f 3 v @ '' V'';
          current_str = (case current r of Some c \<Rightarrow> format_f 6 c @ '' A'' | None \<Rightarrow> ''N/A'');
          soc_str = format_f 1 soc_percentage @ ''%'';
          stable =
            (case last_voltage s of
               Some l \<Rightarrow> if \<bar>fsub v l\<bar> < TOLERANCE then stable_count s + 1 else 0
             | None \<Rightarrow> 0);
          forced = (STABLE_THRESHOLD \<le> stable);
          reconnect = (\<not> sensor_connected s \<and> VALID_READ_COUNT_FOR_RECONNECT \<le> count)
      in (\<lparr>sensor_connected = (sensor_connected s \<or> reconnect),
           consecutive_failures = 0,
           valid_read_count = count,
           last_voltage = (if forced then voltage_again r else Some v),
           stable_count = (if forced then 0 else stable)\<rparr>,
          [Safe_read_voltage, Safe_read_current]
          @ (if forced
             then [Print ''Forcing sensor reinitialization (unchanging voltage).'',
                   Reset_ina226, Configure_ina226, Sleep (1 / 4),
                   Safe_read_voltage, Safe_read_current]
             else [])
          @ (if reconnect then [Print ''Battery Reconnected''] else [])
          @ publish (publish_str voltage_str current_str soc_str)))"

text \<open>One iteration of \<open>while True\<close>.\<close>

definition cycle :: "monitor \<Rightarrow> readings \<Rightarrow> monitor \<times> effect list" where
  "cycle s r =
     (case voltage r of
        None \<Rightarrow> cycle_invalid s r
      | Some v \<Rightarrow> if v < fl64 (1 / 10) then cycle_invalid s r else cycle_valid s r v)"

text \<open>The calls that reach the sensor, without the printing, sleeping and sending.\<close>

fun bus_calls :: "effect list \<Rightarrow> effect list" where
  "bus_calls [] = []"
| "bus_calls (Sleep d # es) = bus_calls es"
| "bus_calls (Print m # es) = bus_calls es"
| "bus_calls (Send_string m # es) = bus_calls es"
| "bus_calls (e # es) = e # bus_calls es"

text \<open>The message sent in an iteration.\<close>

fun sent :: "effect list \<Rightarrow> string list" where
  "sent [] = []"
| "sent (Send_string m # es) = m # sent es"
| "sent (e # es) = sent es"

text \<open>The loop over the answers of the hardware: the final variables and each iteration's effects.\<close>

fun run :: "monitor \<Rightarrow> readings list \<Rightarrow> monitor" where
  "run s [] = s"
| "run s (r # rs) = run (fst (cycle s r)) rs"

fun trace :: "monitor \<Rightarrow> readings list \<Rightarrow> effect list list" where
  "trace s [] = []"
| "trace s (r # rs) = snd (cycle s r) # trace (fst (cycle s r)) rs"

section \<open>Subscriber: the parser\<close>

text \<open>
  The pattern of \<open>handle_new_message\<close> is a sequence of literal characters, \<open>\s*\<close> and
  the capturing group \<open>([\d.]+)\<close>. Messages are ASCII strings.
\<close>

datatype cclass = Whitespace | Digit_or_dot

definition in_class :: "cclass \<Rightarrow> char \<Rightarrow> bool" where
  "in_class k c =
     (case k of
        Whitespace \<Rightarrow>
          c \<in> set [CHR '' '', CHR 0x09, CHR 0x0A, CHR 0x0B, CHR 0x0C, CHR 0x0D,
                    CHR 0x1C, CHR 0x1D, CHR 0x1E, CHR 0x1F]
      | Digit_or_dot \<Rightarrow> c \<in> set ''0123456789.'')"

datatype item = Lit char | Star cclass | Group_plus cclass

text \<open>
  Matching at the start of the string, as the backtracking matcher of \<open>re\<close> does: a
  quantifier takes as many characters as it can and gives them back one at a time when
  the rest of the pattern fails. The result is the list of captured groups.
\<close>

function match_items :: "item list \<Rightarrow> string \<Rightarrow> string list option"
  and match_group :: "cclass \<Rightarrow> string \<Rightarrow> item list \<Rightarrow> string \<Rightarrow> string list option"
where
  "match_items [] s = Some []"
| "match_items (Lit c # p) [] = None"
| "match_items (Lit c # p) (x # s) = (if x = c then match_items p s else None)"
| "match_items (Star k # p) [] = match_items p []"
| "match_items (Star k # p) (x # s) =
     (if in_class k x
      then (case match_items (Star k # p) s of Some g \<Rightarrow> Some g | None \<Rightarrow> match_items p (x # s))
      else match_items p (x # s))"
| "match_items (Group_plus k # p) [] = None"
| "match_items (Group_plus k # p) (x # s) =
     (if in_class k x then match_group k [x] p s else None)"
| "match_group k acc p [] = map_option (Cons acc) (match_items p [])"
| "match_group k acc p (x # s) =
     (if in_class k x
      then (case match_group k (acc @ [x]) p s of
              Some g \<Rightarrow> Some g
            | None \<Rightarrow> map_option (Cons acc) (match_items p (x # s)))
      else map_option (Cons acc) (match_items p (x # s)))"
  by pat_completeness auto
termination
  by (relation "measures
        [\<lambda>a. case a of Inl (p, s) \<Rightarrow> length s | Inr (k, acc, p, s) \<Rightarrow> length s,
         \<lambda>a. case a of Inl (p, s) \<Rightarrow> 2 * length p | Inr (k, acc, p, s) \<Rightarrow> 2 * length p + 1]")
     auto

text \<open>\<open>re.search\<close>: the first position, from the left, where the pattern matches.\<close>

fun re_search :: "item list \<Rightarrow> string \<Rightarrow> string list option" where
  "re_search p [] = match_items p []"
| "re_search p (x # s) =
     (case match_items p (x # s) of Some g \<Rightarrow> Some g | None \<Rightarrow> re_search p s)"

definition pattern :: "item list" where
  "pattern =
     map Lit ''Voltage:'' @ [Star Whitespace, Group_plus Digit_or_dot, Star Whitespace]
     @ map Lit ''V,'' @ [Star Whitespace]
     @ map Lit ''Current:'' @ [Star Whitespace, Group_plus Digit_or_dot, Star Whitespace]
     @ map Lit ''A,'' @ [Star Whitespace]
     @ map Lit ''SoC:'' @ [Star Whitespace, Group_plus Digit_or_dot, Lit CHR ''%'']"


text \<open>
  \<open>float(match.group(k))\<close> on a captured group, a non-empty string of digits and dots:
  \<open>None\<close> is the \<open>ValueError\<close> (more than one dot, or no digit), otherwise the decimal
  number, correctly rounded.
\<close>

definition digit_val :: "char \<Rightarrow> nat" where
  "digit_val c = length (takeWhile (\<lambda>d. d \<noteq> c) ''0123456789'')"

definition digits_val :: "string \<Rightarrow> nat" where
  "digits_val s = foldl (\<lambda>n c. 10 * n + digit_val c) 0 s"

definition py_float :: "string \<Rightarrow> real option" where
  "py_float s =
     (let ip = takeWhile (\<lambda>c. c \<noteq> CHR ''.'') s;
          rest = dropWhile (\<lambda>c. c \<noteq> CHR ''.'') s
      in case rest of
           [] \<Rightarrow> if ip = [] then None else Some (fl64 (of_nat (digits_val ip)))
         | dot # fp \<Rightarrow>
             if CHR ''.'' \<in> set fp \<or> (ip = [] \<and> fp = []) then None
             else Some (fl64 (of_nat (digits_val ip) + of_nat (digits_val fp) / 10 ^ length fp)))"

section \<open>Subscriber: the window\<close>

text \<open>The attributes of \<open>MainWindow\<close> that \<open>handle_new_message\<close> reads or writes.\<close>

record window =
  time_data :: "real list"
  voltage_data :: "real list"
  current_data :: "real list"
  soc_data :: "real list"
  filtered_soc :: "real option"
  start_time :: real
  time_left_label :: string

definition max_points :: nat where
  "max_points = 300"

definition battery_capacity :: real where
  "battery_capacity = 10"

text \<open>The window after \<open>__init__\<close>, started at time \<open>t0\<close>.\<close>

definition init_window :: "real \<Rightarrow> window" where
  "init_window t0 =
     \<lparr>time_data = [], voltage_data = [], current_data = [], soc_data = [],
      filtered_soc = None, start_time = t0, time_left_label = ''Time Left: --:--''\<rparr>"

text \<open>\<open>int(x)\<close> of a float truncates towards zero; \<open>x % y\<close> of floats, for \<open>y > 0\<close>.\<close>

definition py_int :: "real \<Rightarrow> int" where
  "py_int x = (if 0 \<le> x then \<lfloor>x\<rfloor> else \<lceil>x\<rceil>)"

definition py_mod :: "real \<Rightarrow> real \<Rightarrow> real" where
  "py_mod x y = fl64 (x - y * of_int \<lfloor>x / y\<rfloor>)"

definition hours_left :: "real \<Rightarrow> real \<Rightarrow> real" where
  "hours_left soc_percent current_amp =
     fdiv (fmul battery_capacity (fdiv soc_percent 100)) current_amp"

definition update_time_left :: "window \<Rightarrow> real \<Rightarrow> real \<Rightarrow> window" where
  "update_time_left w soc_percent current_amp =
     (if current_amp < fl64 (1 / 100) \<or> soc_percent < 1
      then w\<lparr>time_left_label := ''Time Left: N/A''\<rparr>
      else
        let total_minutes = py_int (fmul (hours_left soc_percent current_amp) 60);
            seconds = py_int (py_mod (fmul (hours_left soc_percent current_amp) 3600) 60)
        in if total_minutes < 60
           then w\<lparr>time_left_label :=
                  ''Time Left: '' @ str_int total_minutes @ '' min '' @ str_int seconds @ '' s''\<rparr>
           else
             let hrs = total_minutes div 60;
                 mins = total_minutes mod 60
             in w\<lparr>time_left_label :=
                    ''Time Left: '' @ str_int hrs @ '' h '' @ str_int mins @ '' min ''
                    @ str_int seconds @ '' s''\<rparr>)"

text \<open>
  The smoothing step \<open>alpha * soc_val + (1 - alpha) * self.filtered_soc\<close> with
  \<open>alpha = 0.2\<close>, for a rounding operator \<open>rnd\<close>: \<open>fl64\<close> is the program, the identity is
  the same expression in exact arithmetic.
\<close>

definition smooth_with :: "(real \<Rightarrow> real) \<Rightarrow> real \<Rightarrow> real \<Rightarrow> real" where
  "smooth_with rnd soc_val prev =
     (let alpha = rnd (2 / 10)
      in rnd (rnd (alpha * soc_val) + rnd (rnd (1 - alpha) * prev)))"

definition alpha :: real where
  "alpha = fl64 (2 / 10)"

definition smooth :: "real \<Rightarrow> real \<Rightarrow> real" where
  "smooth = smooth_with fl64"

text \<open>The slice \<open>xs[-n:]\<close>.\<close>

definition slice_last :: "nat \<Rightarrow> 'a list \<Rightarrow> 'a list" where
  "slice_last n xs = (if n = 0 then xs else drop (length xs - n) xs)"

text \<open>The body of \<open>handle_new_message\<close> once the three numbers are parsed, at clock \<open>now\<close>.\<close>

definition record_sample :: "window \<Rightarrow> real \<Rightarrow> real \<Rightarrow> real \<Rightarrow> real \<Rightarrow> window" where
  "record_sample w now voltage_val current_val soc_val =
     (let elapsed_time = fsub now (start_time w);
          f = (case filtered_soc w of None \<Rightarrow> soc_val | Some prev \<Rightarrow> smooth soc_val prev);
          w1 = w\<lparr>time_data := time_data w @ [elapsed_time],
                 voltage_data := voltage_data w @ [voltage_val],
                 current_data := current_data w @ [current_val],
                 filtered_soc := Some f,
                 soc_data := soc_data w @ [f]\<rparr>;
          w2 = (if max_points < length (time_data w1)
                then w1\<lparr>time_data := slice_last max_points (time_data w1),
                        voltage_data := slice_last max_points (voltage_data w1),
                        current_data := slice_last max_points (current_data w1),
                        soc_data := slice_last max_points (soc_data w1)\<rparr>
                else w1)
      in update_time_left w2 f current_val)"

definition handle_new_message :: "window \<Rightarrow> real \<Rightarrow> string \<Rightarrow> window" where
  "handle_new_message w now msg =
     (case re_search pattern msg of
        None \<Rightarrow> w
      | Some g \<Rightarrow>
          (case map py_float g of
             [Some voltage_val, Some current_val, Some soc_val] \<Rightarrow>
               record_sample w now voltage_val current_val soc_val
           | _ \<Rightarrow> w))"

text \<open>The window after a sequence of messages, each with the clock at its arrival.\<close>

fun receive :: "window \<Rightarrow> (real \<times> string) list \<Rightarrow> window" where
  "receive w [] = w"
| "receive w ((now, msg) # ms) = receive (handle_new_message w now msg) ms"

section \<open>Notions used in the statements\<close>

text \<open>The number of consecutive valid readings at the end of a history.\<close>

definition valid_streak :: "readings list \<Rightarrow> nat" where
  "valid_streak rs = length (takeWhile (\<lambda>r. \<not> invalid_reading (voltage r)) (rev rs))"

text \<open>
  A valid reading that differs from the retained voltage by less than \<open>TOLERANCE\<close>: the
  two tests of the source that let \<open>stable_count\<close> grow.
\<close>

definition stable_reading :: "monitor \<Rightarrow> readings \<Rightarrow> bool" where
  "stable_reading s r =
     (case (voltage r, last_voltage s) of
        (Some v, Some l) \<Rightarrow> \<not> v < fl64 (1 / 10) \<and> \<bar>fsub v l\<bar> < TOLERANCE
      | _ \<Rightarrow> False)"

text \<open>The sensor calls of an iteration that forces a reinitialization.\<close>

definition forced_calls :: "effect list" where
  "forced_calls =
     [Safe_read_voltage, Safe_read_current, Reset_ina226, Configure_ina226,
      Safe_read_voltage, Safe_read_current]"

text \<open>Readings for the examples: a steady 12 V, a dead bus, a voltage without a current,
  a stuck 15 V that reads 16 V afterwards.\<close>

definition steady :: readings where
  "steady = \<lparr>voltage = Some 12, current = Some 1, present = True,
             voltage_again = Some 12, current_again = Some 1\<rparr>"

definition dead :: readings where
  "dead = \<lparr>voltage = None, current = None, present = True,
           voltage_again = None, current_again = None\<rparr>"

definition no_current :: readings where
  "no_current = \<lparr>voltage = Some 12, current = None, present = True,
                 voltage_again = None, current_again = None\<rparr>"

definition stuck :: readings where
  "stuck = \<lparr>voltage = Some 15, current = Some 1, present = True,
            voltage_again = Some 16, current_again = Some 2\<rparr>"

text \<open>The histories have one length, at most \<open>max_points\<close>.\<close>

definition window_inv :: "window \<Rightarrow> bool" where
  "window_inv w \<longleftrightarrow>
     length (time_data w) \<le> max_points
     \<and> length (voltage_data w) = length (time_data w)
     \<and> length (current_data w) = length (time_data w)
     \<and> length (soc_data w) = length (time_data w)"

text \<open>A window whose histories hold 300 entries.\<close>

definition full_window :: window where
  "full_window =
     \<lparr>time_data = map of_nat [0..<300], voltage_data = replicate 300 12,
      current_data = replicate 300 1, soc_data = replicate 300 0,
      filtered_soc = Some 0, start_time = 0, time_left_label = ''Time Left: N/A''\<rparr>"

section \<open>Binary64 rounding: exponent and monotonicity\<close>

lemma expo_up_bounds: "1 \<le> x \<Longrightarrow> 2 powi expo_up x \<le> x \<and> x < 2 powi (expo_up x + 1)"
proof (induction x rule: expo_up.induct)
  case (1 x)
  show ?case
  proof (cases "x < 2")
    case True
    with 1(2) show ?thesis by (simp add: expo_up.simps)
  next
    case False
    then have "1 \<le> x / 2" by simp
    from 1(1) [OF False this]
    have "2 powi expo_up (x / 2) \<le> x / 2" "x / 2 < 2 powi (expo_up (x / 2) + 1)" by auto
    then show ?thesis using False
      by (simp add: expo_up.simps [of x] power_int_add field_simps)
  qed
qed

lemma expo_dn_bounds:
  "0 < x \<Longrightarrow> x < 1 \<Longrightarrow> 2 powi expo_dn x \<le> x \<and> x < 2 powi (expo_dn x + 1)"
proof (induction x rule: expo_dn.induct)
  case (1 x)
  have nx: "\<not> (x \<le> 0 \<or> 1 \<le> x)" using 1 by simp
  show ?case
  proof (cases "x * 2 < 1")
    case True
    from 1(1) [OF nx _ True] 1(2)
    have "2 powi expo_dn (x * 2) \<le> x * 2" "x * 2 < 2 powi (expo_dn (x * 2) + 1)" by auto
    then show ?thesis using nx
      by (simp add: expo_dn.simps [of x] power_int_add power_int_diff field_simps)
  next
    case False
    then have "expo_dn (x * 2) = 0" by (simp add: expo_dn.simps)
    then show ?thesis using nx False by (simp add: expo_dn.simps [of x])
  qed
qed

lemma expo_bounds: "0 < x \<Longrightarrow> 2 powi expo x \<le> x \<and> x < 2 powi (expo x + 1)"
  using expo_up_bounds [of x] expo_dn_bounds [of x] by (cases "1 \<le> x") (simp_all add: expo_def)

lemma expo_mono:
  assumes "0 < x" "x \<le> y"
  shows "expo x \<le> expo y"
proof (rule ccontr)
  assume "\<not> expo x \<le> expo y"
  then have "expo y + 1 \<le> expo x" by simp
  then have "(2::real) powi (expo y + 1) \<le> 2 powi expo x"
    by (intro power_int_increasing) simp_all
  with expo_bounds [of x] expo_bounds [of y] assms show False by linarith
qed

lemma round_even_floor: "\<lfloor>x\<rfloor> \<le> round_even x \<and> round_even x \<le> \<lfloor>x\<rfloor> + 1"
  by (simp add: round_even_def Let_def)

lemma round_even_mono:
  assumes "x \<le> y"
  shows "round_even x \<le> round_even y"
proof (cases "\<lfloor>x\<rfloor> = \<lfloor>y\<rfloor>")
  case True
  then show ?thesis using assms by (auto simp add: round_even_def Let_def)
next
  case False
  moreover have "\<lfloor>x\<rfloor> \<le> \<lfloor>y\<rfloor>" using assms by (rule floor_mono)
  ultimately have "\<lfloor>x\<rfloor> + 1 \<le> \<lfloor>y\<rfloor>" by simp
  then show ?thesis using round_even_floor [of x] round_even_floor [of y] by linarith
qed

lemma round_even_of_int: "round_even (of_int n) = n"
  by (simp add: round_even_def)

lemma fl64_zero: "fl64 0 = 0"
  by (simp add: fl64_def)

lemma fl64_minus: "fl64 (- x) = - fl64 x"
  by (simp add: fl64_def Let_def)

lemma fl64_pos_bounds:
  assumes "0 < x"
  shows "2 powi expo x \<le> fl64 x \<and> fl64 x \<le> 2 powi (expo x + 1)"
proof -
  define u :: real where "u = 2 powi (expo x - 52)"
  define r where "r = round_even (x / u)"
  have u: "0 < u" by (simp add: u_def)
  have e1: "2 powi expo x = 2 ^ 52 * u" by (simp add: u_def power_int_diff)
  have e2: "2 powi (expo x + 1) = 2 ^ 53 * u" by (simp add: u_def power_int_diff power_int_add)
  from expo_bounds [OF assms] have "2 ^ 52 * u \<le> x" "x < 2 ^ 53 * u" by (simp_all add: e1 e2)
  then have "of_int (2 ^ 52) \<le> x / u" "x / u \<le> of_int (2 ^ 53)"
    using u by (simp_all add: field_simps)
  then have "round_even (of_int (2 ^ 52)) \<le> r" "r \<le> round_even (of_int (2 ^ 53))"
    unfolding r_def by (simp_all only: round_even_mono)
  then have "2 ^ 52 \<le> r" "r \<le> 2 ^ 53"
    unfolding round_even_of_int by simp_all
  then have "(of_int (2 ^ 52) :: real) \<le> of_int r" "(of_int r :: real) \<le> of_int (2 ^ 53)"
    by (simp_all only: of_int_le_iff)
  then have "(2 ^ 52 :: real) \<le> of_int r" "of_int r \<le> (2 ^ 53 :: real)" by simp_all
  then have "2 ^ 52 * u \<le> of_int r * u" "of_int r * u \<le> 2 ^ 53 * u" using u by simp_all
  moreover have "fl64 x = of_int r * u" using assms by (simp add: fl64_def u_def r_def Let_def)
  ultimately show ?thesis by (simp add: e1 e2)
qed

lemma fl64_pos: "0 < x \<Longrightarrow> 0 < fl64 x"
proof -
  assume "0 < x"
  from fl64_pos_bounds [OF this] have "2 powi expo x \<le> fl64 x" by simp
  moreover have "(0::real) < 2 powi expo x" by simp
  ultimately show ?thesis by linarith
qed

lemma fl64_mono_pos:
  assumes "0 < x" "x \<le> y"
  shows "fl64 x \<le> fl64 y"
proof (cases "expo x = expo y")
  case True
  define u :: real where "u = 2 powi (expo x - 52)"
  have u: "0 < u" by (simp add: u_def)
  have "x / u \<le> y / u" using assms u by (simp add: divide_right_mono)
  then have "round_even (x / u) \<le> round_even (y / u)" by (rule round_even_mono)
  then have "of_int (round_even (x / u)) * u \<le> of_int (round_even (y / u)) * u" using u by simp
  moreover have "fl64 x = of_int (round_even (x / u)) * u"
    using assms by (simp add: fl64_def u_def Let_def)
  moreover have "fl64 y = of_int (round_even (y / u)) * u"
    using assms True by (simp add: fl64_def u_def Let_def)
  ultimately show ?thesis by simp
next
  case False
  with expo_mono [OF assms] have "expo x + 1 \<le> expo y" by simp
  then have "(2::real) powi (expo x + 1) \<le> 2 powi expo y"
    by (intro power_int_increasing) simp_all
  moreover have "0 < y" using assms by simp
  ultimately show ?thesis
    using fl64_pos_bounds [OF assms(1)] fl64_pos_bounds [OF \<open>0 < y\<close>] by linarith
qed

lemma fl64_mono:
  assumes "x \<le> y"
  shows "fl64 x \<le> fl64 y"
proof -
  consider "0 < x" | "x = 0" "y = 0" | "x = 0" "0 < y" | "x < 0" "0 \<le> y" | "x < 0" "y < 0"
    using assms by linarith
  then show ?thesis
  proof cases
    case 1
    then show ?thesis using assms by (rule fl64_mono_pos)
  next
    case 2
    then show ?thesis by simp
  next
    case 3
    then show ?thesis using fl64_pos [of y] by (simp add: fl64_zero)
  next
    case 4
    have "fl64 (- x) > 0" using 4 by (intro fl64_pos) simp
    then have "fl64 x < 0" by (simp add: fl64_minus)
    moreover have "0 \<le> fl64 y"
      using 4 fl64_pos [of y] by (cases "y = 0") (simp_all add: fl64_zero)
    ultimately show ?thesis by simp
  next
    case 5
    then have "fl64 (- y) \<le> fl64 (- x)" using assms by (intro fl64_mono_pos) simp_all
    then show ?thesis by (simp add: fl64_minus)
  qed
qed

lemma fl64_nonneg: "0 \<le> x \<Longrightarrow> 0 \<le> fl64 x"
  using fl64_mono [of 0 x] by (simp add: fl64_zero)

lemma powi2_eval: "(2::real) powi e = (if 0 \<le> e then 2 ^ nat e else 1 / 2 ^ nat (- e))"
  by (simp add: power_int_def power_one_over inverse_eq_divide)

lemmas fl64_eval =
  fl64_def expo_def expo_up.simps expo_dn.simps round_even_def powi2_eval Let_def

lemma fl64_1: "fl64 1 = 1"
  by (simp add: fl64_eval)

lemma fl64_100: "fl64 100 = 100"
  by (simp add: fl64_eval)

lemma min_v_val: "min_v = 8331659310635418 / 2 ^ 49"
  by (simp add: min_v_def fl64_eval)

section \<open>State of charge\<close>

lemma max_v_val: "max_v = 4742853357574554 / 2 ^ 48"
  by (simp add: max_v_def fl64_eval)

lemma span_val: "fsub max_v min_v = 4616189618054760 / 2 ^ 51"
  by (simp add: fsub_def min_v_val max_v_val fl64_eval)

lemma span_pos: "0 < fsub max_v min_v"
  by (simp add: span_val)

lemma min_less_max: "min_v < max_v"
  by (simp add: min_v_val max_v_val)

lemma interp_mono:
  assumes "v \<le> w"
  shows "fmul (fdiv (fsub v min_v) (fsub max_v min_v)) 100 \<le> fmul (fdiv (fsub w min_v) (fsub max_v min_v)) 100"
proof -
  have "fsub v min_v \<le> fsub w min_v" using assms by (simp add: fsub_def fl64_mono)
  then have "fsub v min_v / fsub max_v min_v \<le> fsub w min_v / fsub max_v min_v"
    using span_pos by (simp add: divide_right_mono)
  then have "fdiv (fsub v min_v) (fsub max_v min_v) \<le> fdiv (fsub w min_v) (fsub max_v min_v)"
    by (simp add: fdiv_def fl64_mono)
  then show ?thesis by (simp add: fmul_def fl64_mono)
qed

lemma interp_nonneg:
  assumes "min_v \<le> v"
  shows "0 \<le> fmul (fdiv (fsub v min_v) (fsub max_v min_v)) 100"
proof -
  have "0 \<le> fsub v min_v" using assms by (simp add: fsub_def fl64_nonneg)
  then have "0 \<le> fdiv (fsub v min_v) (fsub max_v min_v)"
    using span_pos by (simp add: fdiv_def fl64_nonneg)
  then show ?thesis by (simp add: fmul_def fl64_nonneg)
qed

lemma interp_le_100:
  assumes "v \<le> max_v"
  shows "fmul (fdiv (fsub v min_v) (fsub max_v min_v)) 100 \<le> 100"
proof -
  have "fsub v min_v \<le> fsub max_v min_v" using assms by (simp add: fsub_def fl64_mono)
  then have "fsub v min_v / fsub max_v min_v \<le> 1" using span_pos by simp
  then have "fdiv (fsub v min_v) (fsub max_v min_v) \<le> 1"
    unfolding fdiv_def using fl64_mono [of "fsub v min_v / fsub max_v min_v" 1] by (simp add: fl64_1)
  then have "fdiv (fsub v min_v) (fsub max_v min_v) * 100 \<le> 100" by simp
  then show ?thesis unfolding fmul_def using fl64_mono [of _ 100] by (simp add: fl64_100)
qed

lemma estimate_soc_range: "0 \<le> estimate_soc v \<and> estimate_soc v \<le> 100"
  using interp_nonneg interp_le_100 by (auto simp: estimate_soc_def split: option.splits)

lemma estimate_soc_mono: "v \<le> w \<Longrightarrow> estimate_soc (Some v) \<le> estimate_soc (Some w)"
  using interp_nonneg [of w] interp_le_100 [of v] interp_mono [of v w]
  by (auto simp: estimate_soc_def)

lemma v_mid_val: "fl64 (15825 / 1000) = 8908683012892262 / 2 ^ 49"
  by (simp add: fl64_eval)

lemma estimate_soc_mid: "estimate_soc (Some (fl64 (15825 / 1000))) = 7036874417766388 / 2 ^ 47"
proof -
  let ?v = "fl64 (15825 / 1000)"
  have a: "fsub ?v min_v = 4616189618054752 / 2 ^ 52"
    unfolding fsub_def v_mid_val min_v_val by (simp add: fl64_eval)
  have b: "fdiv (fsub ?v min_v) (fsub max_v min_v) = 9007199254740976 / 2 ^ 54"
    unfolding a span_val by (simp add: fdiv_def) (simp add: fl64_eval)
  have c: "fmul (fdiv (fsub ?v min_v) (fsub max_v min_v)) 100 = 7036874417766388 / 2 ^ 47"
    unfolding b by (simp add: fmul_def) (simp add: fl64_eval)
  have d: "\<not> ?v \<le> min_v" "\<not> max_v \<le> ?v"
    unfolding v_mid_val min_v_val max_v_val by simp_all
  show ?thesis by (simp only: estimate_soc_def option.case d if_False c)
qed

text \<open>
  C6 (as amended). \<open>estimate_soc(None)\<close> is 0.0; every voltage at or below \<open>min_v\<close> (the
  float 14.8) gives 0.0 and every voltage at or above \<open>max_v\<close> (the float 16.85) gives
  100.0; strictly between the bounds the result is \<open>(v - min_v) / (max_v - min_v) * 100.0\<close>
  evaluated in binary64 arithmetic; the function is monotonically non-decreasing in the
  voltage and its result lies in [0, 100]. At the float 15.825 the result is
  \<open>7036874417766388 / 2^47\<close>, that is 49.999999999999915: within \<open>10^-13\<close> of 50.0, not
  equal to it.
\<close>

theorem estimate_soc_spec:
  "estimate_soc None = 0
   \<and> (\<forall>v. v \<le> min_v \<longrightarrow> estimate_soc (Some v) = 0)
   \<and> (\<forall>v. max_v \<le> v \<longrightarrow> estimate_soc (Some v) = 100)
   \<and> (\<forall>v. min_v < v \<and> v < max_v \<longrightarrow>
         estimate_soc (Some v) = fmul (fdiv (fsub v min_v) (fsub max_v min_v)) 100)
   \<and> (\<forall>v w. v \<le> w \<longrightarrow> estimate_soc (Some v) \<le> estimate_soc (Some w))
   \<and> (\<forall>v. 0 \<le> estimate_soc v \<and> estimate_soc v \<le> 100)
   \<and> estimate_soc (Some (fl64 (15825 / 1000))) = 7036874417766388 / 2 ^ 47
   \<and> \<bar>estimate_soc (Some (fl64 (15825 / 1000))) - 50\<bar> < 1 / 10 ^ 13"
proof (intro conjI allI impI)
  show "estimate_soc None = 0" by (simp add: estimate_soc_def)
next
  fix v :: real
  assume "v \<le> min_v"
  then show "estimate_soc (Some v) = 0" by (simp add: estimate_soc_def)
next
  fix v :: real
  assume "max_v \<le> v"
  then show "estimate_soc (Some v) = 100" using min_less_max by (simp add: estimate_soc_def)
next
  fix v :: real
  assume "min_v < v \<and> v < max_v"
  then show "estimate_soc (Some v) = fmul (fdiv (fsub v min_v) (fsub max_v min_v)) 100"
    by (simp add: estimate_soc_def)
next
  fix v w :: real
  assume "v \<le> w"
  then show "estimate_soc (Some v) \<le> estimate_soc (Some w)" by (rule estimate_soc_mono)
next
  fix v
  show "0 \<le> estimate_soc v" "estimate_soc v \<le> 100" using estimate_soc_range by simp_all
next
  show "estimate_soc (Some (fl64 (15825 / 1000))) = 7036874417766388 / 2 ^ 47"
    by (rule estimate_soc_mid)
next
  show "\<bar>estimate_soc (Some (fl64 (15825 / 1000))) - 50\<bar> < 1 / 10 ^ 13"
    unfolding estimate_soc_mid by simp
qed

theorem estimate_soc_spec_witness:
  "estimate_soc (Some 14) = 0 \<and> estimate_soc (Some 17) = 100
   \<and> estimate_soc (Some 15) = fmul (fdiv (fsub 15 min_v) (fsub max_v min_v)) 100
   \<and> estimate_soc (Some 15) \<le> estimate_soc (Some 16)"
proof -
  have "(14::real) \<le> min_v" "max_v \<le> (17::real)" "min_v < (15::real) \<and> (15::real) < max_v"
    "(15::real) \<le> 16"
    by (simp_all add: min_v_val max_v_val)
  then show ?thesis using estimate_soc_spec by blast
qed

text \<open>
  C6 as stated asks for \<open>estimate_soc(15.825) = 50.0\<close>; the binary64 evaluation of the
  interpolation at the float 15.825 is not 50.
\<close>

theorem estimate_soc_midpoint_not_50: "estimate_soc (Some (fl64 (15825 / 1000))) \<noteq> 50"
proof -
  have "estimate_soc (Some (fl64 (15825 / 1000))) = 7036874417766388 / 2 ^ 47"
  proof -
    let ?v = "fl64 (15825 / 1000)"
    have a: "fsub ?v min_v = 4616189618054752 / 2 ^ 52"
      unfolding fsub_def v_mid_val min_v_val by (simp add: fl64_eval)
    have b: "fdiv (fsub ?v min_v) (fsub max_v min_v) = 9007199254740976 / 2 ^ 54"
      unfolding a span_val by (simp add: fdiv_def) (simp add: fl64_eval)
    have c: "fmul (fdiv (fsub ?v min_v) (fsub max_v min_v)) 100 = 7036874417766388 / 2 ^ 47"
      unfolding b by (simp add: fmul_def) (simp add: fl64_eval)
    have d: "\<not> ?v \<le> min_v" "\<not> max_v \<le> ?v"
      unfolding v_mid_val min_v_val max_v_val by simp_all
    show ?thesis by (simp only: estimate_soc_def option.case d if_False c)
  qed
  then show ?thesis by simp
qed

section \<open>The monitor\<close>

lemma cycle_invalid_eq: "invalid_reading (voltage r) \<Longrightarrow> cycle s r = cycle_invalid s r"
  by (simp add: cycle_def invalid_reading_def split: option.splits)

lemma cycle_valid_eq:
  "\<not> invalid_reading (voltage r) \<Longrightarrow> \<exists>v. voltage r = Some v \<and> cycle s r = cycle_valid s r v"
  by (simp add: cycle_def invalid_reading_def split: option.splits)

lemma bus_calls_append: "bus_calls (xs @ ys) = bus_calls xs @ bus_calls ys"
  by (induction xs rule: bus_calls.induct) simp_all

lemma bus_calls_publish: "bus_calls (publish m) = []"
  by (simp add: publish_def)

lemma sent_append: "sent (xs @ ys) = sent xs @ sent ys"
  by (induction xs rule: sent.induct) simp_all

lemma sent_publish: "sent (publish m) = [m]"
  by (simp add: publish_def)

text \<open>The invalid branch, field by field.\<close>

lemma cycle_invalid_failures:
  "consecutive_failures (fst (cycle_invalid s r)) =
     (if FAILURE_THRESHOLD \<le> consecutive_failures s + 1 \<and> present r then 0
      else consecutive_failures s + 1)"
  by (simp add: cycle_invalid_def Let_def)

lemma cycle_invalid_bus:
  "bus_calls (snd (cycle_invalid s r)) =
     [Safe_read_voltage, Safe_read_current]
     @ (if FAILURE_THRESHOLD \<le> consecutive_failures s + 1 then [Is_sensor_present] else [])
     @ (if FAILURE_THRESHOLD \<le> consecutive_failures s + 1 \<and> present r
        then [Reset_ina226, Configure_ina226] else [])"
  by (simp add: cycle_invalid_def Let_def bus_calls_append bus_calls_publish)

lemma cycle_invalid_fields:
  "sensor_connected (fst (cycle_invalid s r)) = False"
  "valid_read_count (fst (cycle_invalid s r)) = 0"
  "stable_count (fst (cycle_invalid s r)) = 0"
  "last_voltage (fst (cycle_invalid s r)) = last_voltage s"
  by (simp_all add: cycle_invalid_def Let_def)

lemma cycle_invalid_sent:
  "sent (snd (cycle_invalid s r)) = [''Voltage: Battery Disconnected, Current: N/A, SoC: N/A'']"
  by (simp add: cycle_invalid_def Let_def sent_append sent_publish publish_str_def)

text \<open>The valid branch, field by field.\<close>

lemma cycle_valid_fields:
  "consecutive_failures (fst (cycle_valid s r v)) = 0"
  "valid_read_count (fst (cycle_valid s r v)) = valid_read_count s + 1"
  "sensor_connected (fst (cycle_valid s r v)) =
     (sensor_connected s \<or> VALID_READ_COUNT_FOR_RECONNECT \<le> valid_read_count s + 1)"
  by (auto simp add: cycle_valid_def Let_def)

lemma cycle_valid_sent:
  "sent (snd (cycle_valid s r v)) =
     [publish_str (format_f 3 v @ '' V'')
        (case current r of Some c \<Rightarrow> format_f 6 c @ '' A'' | None \<Rightarrow> ''N/A'')
        (format_f 1 (estimate_soc (Some v)) @ ''%'')]"
  by (simp add: cycle_valid_def Let_def sent_append sent_publish)

lemma cycle_valid_stable:
  assumes "last_voltage s = Some l" "\<bar>fsub v l\<bar> < TOLERANCE"
  shows "STABLE_THRESHOLD \<le> stable_count s + 1 \<Longrightarrow>
           stable_count (fst (cycle_valid s r v)) = 0
           \<and> last_voltage (fst (cycle_valid s r v)) = voltage_again r
           \<and> bus_calls (snd (cycle_valid s r v)) =
               [Safe_read_voltage, Safe_read_current, Reset_ina226, Configure_ina226,
                Safe_read_voltage, Safe_read_current]"
    and "\<not> STABLE_THRESHOLD \<le> stable_count s + 1 \<Longrightarrow>
           stable_count (fst (cycle_valid s r v)) = stable_count s + 1
           \<and> last_voltage (fst (cycle_valid s r v)) = Some v
           \<and> bus_calls (snd (cycle_valid s r v)) = [Safe_read_voltage, Safe_read_current]"
  using assms by (simp_all add: cycle_valid_def Let_def bus_calls_append bus_calls_publish)

lemma run_snoc: "run s (rs @ [r]) = fst (cycle (run s rs) r)"
  by (induction rs arbitrary: s) simp_all

lemma valid_read_count_run: "valid_read_count (run init_monitor rs) = valid_streak rs"
proof (induction rs rule: rev_induct)
  case Nil
  show ?case by (simp add: valid_streak_def init_monitor_def)
next
  case (snoc r rs)
  show ?case
  proof (cases "invalid_reading (voltage r)")
    case True
    then show ?thesis
      by (simp add: run_snoc cycle_invalid_eq cycle_invalid_fields valid_streak_def)
  next
    case False
    from cycle_valid_eq [OF this] obtain v where "cycle (run init_monitor rs) r = cycle_valid (run init_monitor rs) r v"
      by blast
    then show ?thesis using False snoc
      by (simp add: run_snoc cycle_valid_fields valid_streak_def)
  qed
qed

text \<open>
  C5. In every execution from the initial variables, an iteration that turns
  \<open>sensor_connected\<close> from False to True has a valid reading and ends with
  \<open>valid_read_count\<close>, the number of consecutive valid readings up to and including it,
  at least \<open>VALID_READ_COUNT_FOR_RECONNECT\<close>; an invalid reading followed by one more
  reading never leaves the monitor connected, and neither does the first reading of all.
\<close>

theorem reconnect_needs_two_valid:
  "(\<not> sensor_connected (run init_monitor rs) \<and> sensor_connected (run init_monitor (rs @ [r]))
      \<longrightarrow> \<not> invalid_reading (voltage r)
          \<and> VALID_READ_COUNT_FOR_RECONNECT \<le> valid_read_count (run init_monitor (rs @ [r]))
          \<and> VALID_READ_COUNT_FOR_RECONNECT \<le> valid_streak (rs @ [r]))
   \<and> (invalid_reading (voltage r1) \<longrightarrow> \<not> sensor_connected (run s [r1, r2]))
   \<and> \<not> sensor_connected (run init_monitor [r])"
proof (intro conjI impI)
  assume a: "\<not> sensor_connected (run init_monitor rs) \<and> sensor_connected (run init_monitor (rs @ [r]))"
  show v: "\<not> invalid_reading (voltage r)"
  proof
    assume "invalid_reading (voltage r)"
    then have "\<not> sensor_connected (run init_monitor (rs @ [r]))"
      by (simp add: run_snoc cycle_invalid_eq cycle_invalid_fields)
    with a show False by simp
  qed
  from cycle_valid_eq [OF v] obtain x where
    x: "cycle (run init_monitor rs) r = cycle_valid (run init_monitor rs) r x" by blast
  with a show "VALID_READ_COUNT_FOR_RECONNECT \<le> valid_read_count (run init_monitor (rs @ [r]))"
    by (auto simp add: run_snoc cycle_valid_fields)
  then show "VALID_READ_COUNT_FOR_RECONNECT \<le> valid_streak (rs @ [r])"
    by (simp only: valid_read_count_run)
next
  assume i: "invalid_reading (voltage r1)"
  show "\<not> sensor_connected (run s [r1, r2])"
  proof (cases "invalid_reading (voltage r2)")
    case True
    then show ?thesis by (simp add: cycle_invalid_eq cycle_invalid_fields)
  next
    case False
    from cycle_valid_eq [OF this] obtain x where
      "cycle (fst (cycle s r1)) r2 = cycle_valid (fst (cycle s r1)) r2 x" by blast
    then show ?thesis using i
      by (simp add: cycle_invalid_eq cycle_invalid_fields cycle_valid_fields
          VALID_READ_COUNT_FOR_RECONNECT_def)
  qed
next
  show "\<not> sensor_connected (run init_monitor [r])"
  proof (cases "invalid_reading (voltage r)")
    case True
    then show ?thesis by (simp add: cycle_invalid_eq cycle_invalid_fields)
  next
    case False
    from cycle_valid_eq [OF this] obtain x where
      "cycle init_monitor r = cycle_valid init_monitor r x" by blast
    then show ?thesis
      by (simp add: cycle_valid_fields VALID_READ_COUNT_FOR_RECONNECT_def init_monitor_def)
  qed
qed

text \<open>
  C3. A run of three invalid readings, begun at the start or after a valid reading, with
  the sensor present: the first two iterations only read, the third asks for the
  presence of the sensor, resets and configures it, once, and \<open>consecutive_failures\<close> is 0
  afterwards.
\<close>

theorem reinit_after_three_failures:
  assumes "s = init_monitor \<or> (\<exists>s0 r0. \<not> invalid_reading (voltage r0) \<and> s = fst (cycle s0 r0))"
    and "invalid_reading (voltage r1)" "invalid_reading (voltage r2)" "invalid_reading (voltage r3)"
    and "present r1" "present r2" "present r3"
  shows "map bus_calls (trace s [r1, r2, r3]) =
           [[Safe_read_voltage, Safe_read_current],
            [Safe_read_voltage, Safe_read_current],
            [Safe_read_voltage, Safe_read_current, Is_sensor_present, Reset_ina226, Configure_ina226]]
         \<and> consecutive_failures (run s [r1, r2, r3]) = 0"
proof -
  have "consecutive_failures s = 0"
  proof (cases "s = init_monitor")
    case True
    then show ?thesis by (simp add: init_monitor_def)
  next
    case False
    with assms(1) obtain s0 r0 where
      r0: "\<not> invalid_reading (voltage r0)" and s: "s = fst (cycle s0 r0)" by blast
    from cycle_valid_eq [OF r0] obtain v where "cycle s0 r0 = cycle_valid s0 r0 v" by blast
    then show ?thesis by (simp add: s cycle_valid_fields)
  qed
  then show ?thesis using assms(2-)
    by (simp add: cycle_invalid_eq cycle_invalid_failures cycle_invalid_bus FAILURE_THRESHOLD_def)
qed


lemma cycle_stable:
  assumes "stable_reading s r"
  shows "STABLE_THRESHOLD \<le> stable_count s + 1 \<Longrightarrow>
           stable_count (fst (cycle s r)) = 0 \<and> bus_calls (snd (cycle s r)) = forced_calls"
    and "\<not> STABLE_THRESHOLD \<le> stable_count s + 1 \<Longrightarrow>
           stable_count (fst (cycle s r)) = stable_count s + 1
           \<and> bus_calls (snd (cycle s r)) = [Safe_read_voltage, Safe_read_current]"
proof -
  from assms obtain v l where
    v: "voltage r = Some v" "\<not> v < fl64 (1 / 10)" and l: "last_voltage s = Some l" "\<bar>fsub v l\<bar> < TOLERANCE"
    by (auto simp add: stable_reading_def split: option.splits)
  have c: "cycle s r = cycle_valid s r v" using v by (simp add: cycle_def)
  show "STABLE_THRESHOLD \<le> stable_count s + 1 \<Longrightarrow>
           stable_count (fst (cycle s r)) = 0 \<and> bus_calls (snd (cycle s r)) = forced_calls"
    using cycle_valid_stable(1) [OF l] by (simp add: c forced_calls_def)
  show "\<not> STABLE_THRESHOLD \<le> stable_count s + 1 \<Longrightarrow>
           stable_count (fst (cycle s r)) = stable_count s + 1
           \<and> bus_calls (snd (cycle s r)) = [Safe_read_voltage, Safe_read_current]"
    using cycle_valid_stable(2) [OF l] by (simp add: c)
qed

text \<open>
  C4. From any variables, three consecutive readings that are valid and within
  \<open>TOLERANCE\<close> of the voltage retained before them: one of the three iterations resets
  and configures the sensor, reads voltage and current again, and leaves \<open>stable_count\<close>
  at 0, however large \<open>stable_count\<close> was before. When it was 0, that iteration is the
  third one.
\<close>

theorem stale_lock_forces_reinit:
  assumes "stable_reading s r1"
    and "stable_reading (run s [r1]) r2"
    and "stable_reading (run s [r1, r2]) r3"
  shows "(\<exists>k<3. bus_calls (trace s [r1, r2, r3] ! k) = forced_calls
                \<and> stable_count (run s (take (Suc k) [r1, r2, r3])) = 0)
         \<and> (stable_count s = 0 \<longrightarrow>
              map bus_calls (trace s [r1, r2, r3]) =
                [[Safe_read_voltage, Safe_read_current],
                 [Safe_read_voltage, Safe_read_current], forced_calls]
              \<and> stable_count (run s [r1, r2, r3]) = 0)"
proof -
  let ?s1 = "fst (cycle s r1)"
  let ?s2 = "fst (cycle ?s1 r2)"
  have a2: "stable_reading ?s1 r2" and a3: "stable_reading ?s2 r3" using assms(2,3) by simp_all
  consider "2 \<le> stable_count s" | "stable_count s = 1" | "stable_count s = 0" by linarith
  then have first: "\<exists>k<3. bus_calls (trace s [r1, r2, r3] ! k) = forced_calls
                \<and> stable_count (run s (take (Suc k) [r1, r2, r3])) = 0"
  proof cases
    case 1
    then have "STABLE_THRESHOLD \<le> stable_count s + 1" by (simp add: STABLE_THRESHOLD_def)
    from cycle_stable(1) [OF assms(1) this] show ?thesis
      by (intro exI [of _ 0]) simp
  next
    case 2
    then have n: "\<not> STABLE_THRESHOLD \<le> stable_count s + 1" by (simp add: STABLE_THRESHOLD_def)
    from cycle_stable(2) [OF assms(1) n] 2
    have "STABLE_THRESHOLD \<le> stable_count ?s1 + 1" by (simp add: STABLE_THRESHOLD_def)
    from cycle_stable(1) [OF a2 this] show ?thesis
      by (intro exI [of _ 1]) simp
  next
    case 3
    then have n: "\<not> STABLE_THRESHOLD \<le> stable_count s + 1" by (simp add: STABLE_THRESHOLD_def)
    from cycle_stable(2) [OF assms(1) n] 3 have s1: "stable_count ?s1 = 1" by simp
    then have n1: "\<not> STABLE_THRESHOLD \<le> stable_count ?s1 + 1" by (simp add: STABLE_THRESHOLD_def)
    from cycle_stable(2) [OF a2 n1] s1 have "stable_count ?s2 = 2" by simp
    then have "STABLE_THRESHOLD \<le> stable_count ?s2 + 1" by (simp add: STABLE_THRESHOLD_def)
    from cycle_stable(1) [OF a3 this] show ?thesis
      by (intro exI [of _ 2]) (simp add: numeral_2_eq_2)
  qed
  have second: "map bus_calls (trace s [r1, r2, r3]) =
                [[Safe_read_voltage, Safe_read_current],
                 [Safe_read_voltage, Safe_read_current], forced_calls]
              \<and> stable_count (run s [r1, r2, r3]) = 0" if 3: "stable_count s = 0"
  proof -
    from 3 have n: "\<not> STABLE_THRESHOLD \<le> stable_count s + 1" by (simp add: STABLE_THRESHOLD_def)
    from cycle_stable(2) [OF assms(1) n] 3
    have s1: "stable_count ?s1 = 1" and b1: "bus_calls (snd (cycle s r1)) = [Safe_read_voltage, Safe_read_current]"
      by simp_all
    then have n1: "\<not> STABLE_THRESHOLD \<le> stable_count ?s1 + 1" by (simp add: STABLE_THRESHOLD_def)
    from cycle_stable(2) [OF a2 n1] s1
    have s2: "stable_count ?s2 = 2" and b2: "bus_calls (snd (cycle ?s1 r2)) = [Safe_read_voltage, Safe_read_current]"
      by simp_all
    then have "STABLE_THRESHOLD \<le> stable_count ?s2 + 1" by (simp add: STABLE_THRESHOLD_def)
    from cycle_stable(1) [OF a3 this] b1 b2 show ?thesis by simp
  qed
  from first second show ?thesis by blast
qed

lemma tenth: "fl64 (1 / 10) = 7205759403792794 / 2 ^ 56"
  by (simp add: fl64_eval)

lemma tol: "TOLERANCE = 4611686018427388 / 2 ^ 62"
  by (simp add: TOLERANCE_def fl64_eval)

theorem stale_lock_forces_reinit_witness:
  "map bus_calls (trace (run init_monitor [steady]) [steady, steady, steady]) =
     [[Safe_read_voltage, Safe_read_current], [Safe_read_voltage, Safe_read_current], forced_calls]
   \<and> stable_count (run (run init_monitor [steady]) [steady, steady, steady]) = 0"
proof -
  let ?s = "run init_monitor [steady]"
  have v: "cycle s steady = cycle_valid s steady 12" for s
    by (simp add: cycle_def steady_def tenth)
  have l: "last_voltage (fst (cycle_valid s steady 12)) = Some 12" for s
    by (simp add: cycle_valid_def Let_def steady_def)
  have st: "stable_reading (fst (cycle_valid s steady 12)) steady" for s
    by (simp add: stable_reading_def l) (simp add: steady_def tenth tol fsub_def fl64_zero)
  have z: "stable_count ?s = 0"
    by (simp add: v) (simp add: cycle_valid_def Let_def init_monitor_def)
  from stale_lock_forces_reinit [of ?s steady steady steady] z st show ?thesis
    by (simp add: v)
qed

theorem reinit_after_three_failures_witness:
  "map bus_calls (trace init_monitor [dead, dead, dead]) =
     [[Safe_read_voltage, Safe_read_current],
      [Safe_read_voltage, Safe_read_current],
      [Safe_read_voltage, Safe_read_current, Is_sensor_present, Reset_ina226, Configure_ina226]]
   \<and> consecutive_failures (run init_monitor [dead, dead, dead]) = 0"
proof -
  have "invalid_reading (voltage dead)" "present dead"
    by (simp_all add: dead_def invalid_reading_def)
  then show ?thesis using reinit_after_three_failures [of init_monitor dead dead dead] by simp
qed

lemma cycle_steady: "cycle s steady = cycle_valid s steady 12"
  by (simp add: cycle_def steady_def tenth)

lemma steady_valid: "\<not> invalid_reading (voltage steady)"
  by (simp add: invalid_reading_def steady_def tenth)

theorem reconnect_needs_two_valid_witness:
  "\<not> sensor_connected (run init_monitor [steady])
   \<and> sensor_connected (run init_monitor [steady, steady])
   \<and> VALID_READ_COUNT_FOR_RECONNECT \<le> valid_streak [steady, steady]
   \<and> invalid_reading (voltage dead)
   \<and> \<not> sensor_connected (run init_monitor [steady, steady, dead, steady])"
proof -
  have a: "\<not> sensor_connected (run init_monitor [steady])"
    by (simp add: cycle_steady cycle_valid_fields init_monitor_def VALID_READ_COUNT_FOR_RECONNECT_def)
  have b: "sensor_connected (run init_monitor ([steady] @ [steady]))"
    by (simp add: cycle_steady cycle_valid_fields init_monitor_def VALID_READ_COUNT_FOR_RECONNECT_def)
  have c: "invalid_reading (voltage dead)" by (simp add: dead_def invalid_reading_def)
  from reconnect_needs_two_valid [of "[steady]" steady dead "run init_monitor [steady, steady]" steady] a b c
  show ?thesis by simp
qed

section \<open>The published message\<close>

lemma str_nat_hd: "str_nat n \<noteq> [] \<and> hd (str_nat n) \<in> set ''0123456789''"
proof (induction n rule: str_nat.induct)
  case (1 n)
  show ?case
  proof (cases "n < 10")
    case True
    then have "n \<in> {0, 1, 2, 3, 4, 5, 6, 7, 8, 9}" by auto
    then show ?thesis by (auto simp add: str_nat.simps [of n] digit_char_def)
  next
    case False
    with 1 show ?thesis by (simp add: str_nat.simps [of n])
  qed
qed

lemma format_f_hd: "format_f d x \<noteq> [] \<and> hd (format_f d x) \<noteq> CHR ''B''"
proof -
  have "hd (str_nat n @ t) \<noteq> CHR ''B''" for n t
    using str_nat_hd [of n] by (cases "str_nat n") auto
  then show ?thesis using str_nat_hd by (simp add: format_f_def Let_def)
qed

lemma valid_not_disconnected:
  "publish_str (format_f 3 v @ '' V'') c t \<noteq> ''Voltage: Battery Disconnected, Current: N/A, SoC: N/A''"
proof -
  obtain b a where f: "format_f 3 v = b # a" "b \<noteq> CHR ''B''"
    using format_f_hd [of 3 v] by (cases "format_f 3 v") auto
  show ?thesis unfolding publish_str_def f(1) using f(2) by simp
qed

text \<open>
  C10 (as amended). The message of an iteration depends on its reading only, not on the
  variables of the monitor. With a valid voltage it carries the formatted voltage and
  state of charge, and the formatted current when the current was read, \<open>N/A\<close> in its
  place otherwise; it is the \<open>Battery Disconnected\<close> message exactly when the reading is
  invalid.
\<close>

theorem message_form_follows_reading:
  "sent (snd (cycle s r)) = sent (snd (cycle s' r))
   \<and> (\<not> invalid_reading (voltage r) \<longrightarrow>
        (\<exists>v. voltage r = Some v
           \<and> sent (snd (cycle s r)) =
               [publish_str (format_f 3 v @ '' V'')
                  (case current r of Some c \<Rightarrow> format_f 6 c @ '' A'' | None \<Rightarrow> ''N/A'')
                  (format_f 1 (estimate_soc (Some v)) @ ''%'')]))
   \<and> (sent (snd (cycle s r)) = [''Voltage: Battery Disconnected, Current: N/A, SoC: N/A'']
        \<longleftrightarrow> invalid_reading (voltage r))"
proof (cases "invalid_reading (voltage r)")
  case True
  then show ?thesis by (simp add: cycle_invalid_eq cycle_invalid_sent)
next
  case False
  from False obtain v where v0: "voltage r = Some v" "\<not> v < fl64 (1 / 10)"
    by (auto simp add: invalid_reading_def split: option.splits)
  then have v: "voltage r = Some v" "\<And>s. cycle s r = cycle_valid s r v"
    by (simp_all add: cycle_def)
  show ?thesis using False valid_not_disconnected by (simp add: v cycle_valid_sent)
qed

section \<open>Evaluating the format and the stale lock\<close>

lemma replicate_numeral_eval: "replicate (numeral k) x = x # replicate (pred_numeral k) x"
  by (simp add: numeral_eq_Suc)

lemma str_nat_digit: "n < 10 \<Longrightarrow> str_nat n = [digit_char n]"
  by (simp add: str_nat.simps)

lemma str_nat_more: "\<not> n < 10 \<Longrightarrow> str_nat n = str_nat (n div 10) @ [digit_char (n mod 10)]"
  by (simp add: str_nat.simps)

lemmas format_eval =
  format_f_def round_even_def str_nat_digit str_nat_more digit_char_def zfill_def
  replicate_numeral_eval Let_def

lemma fmt_cur: "format_f 6 1 = ''1.000000''"
  by (simp add: format_eval)

lemma fmt_12: "format_f 3 12 = ''12.000''"
  by (simp add: format_eval)

lemma fmt_15: "format_f 3 15 = ''15.000''"
  by (simp add: format_eval)

lemma soc_12: "estimate_soc (Some 12) = 0"
  by (simp add: estimate_soc_def min_v_val)

lemma fmt_soc0: "format_f 1 0 = ''0.0''"
  by (simp add: format_eval)

lemma soc_15: "estimate_soc (Some 15) = 5492194667524973 / 2 ^ 49"
proof -
  have a: "fsub 15 min_v = 7205759403792768 / 2 ^ 55"
    unfolding fsub_def min_v_val by (simp add: fl64_eval)
  have b: "fdiv (fsub 15 min_v) (fsub max_v min_v) = 7030009174431966 / 2 ^ 56"
    unfolding a span_val by (simp add: fdiv_def) (simp add: fl64_eval)
  have c: "fmul (fdiv (fsub 15 min_v) (fsub max_v min_v)) 100 = 5492194667524973 / 2 ^ 49"
    unfolding b by (simp add: fmul_def) (simp add: fl64_eval)
  have d: "\<not> 15 \<le> min_v" "\<not> max_v \<le> 15"
    unfolding min_v_val max_v_val by simp_all
  show ?thesis by (simp only: estimate_soc_def option.case d if_False c)
qed

lemma fmt_soc15: "format_f 1 (5492194667524973 / 2 ^ 49) = ''9.8''"
  by (simp add: format_eval)


lemma cycle_stuck: "cycle s stuck = cycle_valid s stuck 15"
  by (simp add: cycle_def stuck_def tenth)

text \<open>
  C1. Four iterations reading 15 V and 1 A; on the fourth the stale-lock reinitialization
  fires and the sensor then answers 16 V and 2 A. The re-sampled voltage is retained in
  \<open>last_voltage\<close>, but the message sent is the one formatted from the first reading of
  the iteration, not \<open>Voltage: 16.000 V, Current: 2.000000 A, SoC: 58.5%\<close>. In every
  iteration the message is the same whatever the second reads answer.
\<close>

theorem stale_lock_publishes_first_reading:
  "bus_calls (snd (cycle (run init_monitor [stuck, stuck, stuck]) stuck)) = forced_calls
   \<and> last_voltage (run init_monitor [stuck, stuck, stuck, stuck]) = Some 16
   \<and> sent (snd (cycle (run init_monitor [stuck, stuck, stuck]) stuck)) =
       [''Voltage: 15.000 V, Current: 1.000000 A, SoC: 9.8%'']
   \<and> publish_str (format_f 3 16 @ '' V'') (format_f 6 2 @ '' A'')
         (format_f 1 (estimate_soc (Some 16)) @ ''%'') =
       ''Voltage: 16.000 V, Current: 2.000000 A, SoC: 58.5%''
   \<and> sent (snd (cycle s (r\<lparr>voltage_again := a, current_again := b\<rparr>))) = sent (snd (cycle s r))"
proof -
  let ?s1 = "fst (cycle_valid init_monitor stuck 15)"
  let ?s2 = "fst (cycle_valid ?s1 stuck 15)"
  let ?s3 = "fst (cycle_valid ?s2 stuck 15)"
  have t: "\<bar>fsub 15 15\<bar> < TOLERANCE" by (simp add: fsub_def fl64_zero tol)
  have s1: "last_voltage ?s1 = Some 15" "stable_count ?s1 = 0"
    by (simp_all add: cycle_valid_def Let_def init_monitor_def STABLE_THRESHOLD_def)
  have s2: "last_voltage ?s2 = Some 15 \<and> stable_count ?s2 = 1"
    using cycle_valid_stable(2) [of ?s1 15 15 stuck] s1 t by (simp add: STABLE_THRESHOLD_def)
  have s3: "last_voltage ?s3 = Some 15 \<and> stable_count ?s3 = 2"
    using cycle_valid_stable(2) [of ?s2 15 15 stuck] s2 t by (simp add: STABLE_THRESHOLD_def)
  have s4: "stable_count (fst (cycle_valid ?s3 stuck 15)) = 0
      \<and> last_voltage (fst (cycle_valid ?s3 stuck 15)) = voltage_again stuck
      \<and> bus_calls (snd (cycle_valid ?s3 stuck 15)) = forced_calls"
    using cycle_valid_stable(1) [of ?s3 15 15 stuck] s3 t
    by (simp add: STABLE_THRESHOLD_def forced_calls_def)
  have m: "sent (snd (cycle_valid ?s3 stuck 15)) = [''Voltage: 15.000 V, Current: 1.000000 A, SoC: 9.8%'']"
    unfolding cycle_valid_sent soc_15 fmt_soc15 fmt_15
    by (simp add: stuck_def fmt_cur publish_str_def)
  have soc_16: "estimate_soc (Some 16) = 8238292001287484 / 2 ^ 47"
  proof -
    have a: "fsub 16 min_v = 5404319552844592 / 2 ^ 52"
      unfolding fsub_def min_v_val by (simp add: fl64_eval)
    have b: "fdiv (fsub 16 min_v) (fsub max_v min_v) = 5272506880823990 / 2 ^ 53"
      unfolding a span_val by (simp add: fdiv_def) (simp add: fl64_eval)
    have c: "fmul (fdiv (fsub 16 min_v) (fsub max_v min_v)) 100 = 8238292001287484 / 2 ^ 47"
      unfolding b by (simp add: fmul_def) (simp add: fl64_eval)
    have d: "\<not> 16 \<le> min_v" "\<not> max_v \<le> 16"
      unfolding min_v_val max_v_val by simp_all
    show ?thesis by (simp only: estimate_soc_def option.case d if_False c)
  qed
  have f16: "format_f 3 16 = ''16.000''" "format_f 6 2 = ''2.000000''"
    "format_f 1 (8238292001287484 / 2 ^ 47) = ''58.5''"
    by (simp_all add: format_eval)
  have w: "publish_str (format_f 3 16 @ '' V'') (format_f 6 2 @ '' A'')
         (format_f 1 (estimate_soc (Some 16)) @ ''%'') =
       ''Voltage: 16.000 V, Current: 2.000000 A, SoC: 58.5%''"
    unfolding soc_16 f16 by (simp add: publish_str_def)
  have va: "voltage_again stuck = Some 16" by (simp add: stuck_def)
  have i: "sent (snd (cycle s (r\<lparr>voltage_again := a, current_again := b\<rparr>))) = sent (snd (cycle s r))"
    by (simp add: cycle_def cycle_invalid_sent cycle_valid_sent split: option.splits)
  show ?thesis using s4 m w va i by (simp add: cycle_stuck)
qed

section \<open>Messages the subscriber does not parse\<close>

lemmas search_eval = pattern_def in_class_def

lemma disconnected_no_match:
  "re_search pattern ''Voltage: Battery Disconnected, Current: N/A, SoC: N/A'' = None"
  by (simp add: search_eval)

lemma no_current_no_match:
  "re_search pattern ''Voltage: 12.000 V, Current: N/A, SoC: 0.0%'' = None"
  by (simp add: search_eval)

text \<open>
  C10 as stated has every valid reading publish the numeric format. A valid voltage whose
  current read failed is published with \<open>N/A\<close> for the current, a message the parser of
  the subscriber does not match.
\<close>

theorem valid_reading_without_current:
  "\<not> invalid_reading (voltage no_current)
   \<and> sent (snd (cycle init_monitor no_current)) = [''Voltage: 12.000 V, Current: N/A, SoC: 0.0%'']
   \<and> re_search pattern ''Voltage: 12.000 V, Current: N/A, SoC: 0.0%'' = None"
proof -
  have v: "\<not> invalid_reading (voltage no_current)"
    by (simp add: invalid_reading_def no_current_def tenth)
  have c: "cycle init_monitor no_current = cycle_valid init_monitor no_current 12"
    by (simp add: cycle_def no_current_def tenth)
  have m: "sent (snd (cycle_valid init_monitor no_current 12)) =
      [''Voltage: 12.000 V, Current: N/A, SoC: 0.0%'']"
    unfolding cycle_valid_sent soc_12 fmt_soc0 fmt_12 by (simp add: no_current_def publish_str_def)
  show ?thesis using v m no_current_no_match by (simp add: c)
qed

theorem message_form_follows_reading_witness:
  "sent (snd (cycle init_monitor steady)) = [''Voltage: 12.000 V, Current: 1.000000 A, SoC: 0.0%'']
   \<and> sent (snd (cycle (run init_monitor [steady, steady]) steady)) = sent (snd (cycle init_monitor steady))
   \<and> invalid_reading (voltage dead)
   \<and> sent (snd (cycle init_monitor dead)) = [''Voltage: Battery Disconnected, Current: N/A, SoC: N/A'']"
proof -
  let ?m = "[publish_str (format_f 3 12 @ '' V'')
               (case current steady of Some c \<Rightarrow> format_f 6 c @ '' A'' | None \<Rightarrow> ''N/A'')
               (format_f 1 (estimate_soc (Some 12)) @ ''%'')]"
  have d: "invalid_reading (voltage dead)" by (simp add: dead_def invalid_reading_def)
  have v: "voltage steady = Some 12" by (simp add: steady_def)
  have c: "current steady = Some 1" by (simp add: steady_def)
  note t = message_form_follows_reading [of init_monitor steady "run init_monitor [steady, steady]"]
  from t steady_valid have "sent (snd (cycle init_monitor steady)) = ?m" unfolding v by blast
  then have 1: "sent (snd (cycle init_monitor steady)) =
      [''Voltage: 12.000 V, Current: 1.000000 A, SoC: 0.0%'']"
    unfolding c soc_12 fmt_soc0 fmt_12 by (simp add: fmt_cur publish_str_def)
  from t have 2: "sent (snd (cycle (run init_monitor [steady, steady]) steady)) =
      sent (snd (cycle init_monitor steady))" by simp
  from message_form_follows_reading [of init_monitor dead init_monitor] d
  have 3: "sent (snd (cycle init_monitor dead)) = [''Voltage: Battery Disconnected, Current: N/A, SoC: N/A'']"
    by blast
  from 1 2 3 d show ?thesis by blast
qed

text \<open>
  C9. An iteration with an invalid reading sends the \<open>Battery Disconnected\<close> message; the
  pattern of the subscriber does not match it; and for every message the pattern does
  not match, \<open>handle_new_message\<close> returns the window as it was: no history grows,
  \<open>filtered_soc\<close> and the label keep their values.
\<close>

theorem unparseable_message_ignored:
  "(invalid_reading (voltage r) \<longrightarrow>
      sent (snd (cycle s r)) = [''Voltage: Battery Disconnected, Current: N/A, SoC: N/A''])
   \<and> re_search pattern ''Voltage: Battery Disconnected, Current: N/A, SoC: N/A'' = None
   \<and> (re_search pattern msg = None \<longrightarrow> handle_new_message w now msg = w)"
  using disconnected_no_match
  by (simp add: cycle_invalid_eq cycle_invalid_sent handle_new_message_def)

theorem unparseable_message_ignored_witness:
  "invalid_reading (voltage dead)
   \<and> sent (snd (cycle init_monitor dead)) = [''Voltage: Battery Disconnected, Current: N/A, SoC: N/A'']
   \<and> handle_new_message (init_window 0) 5 ''Voltage: Battery Disconnected, Current: N/A, SoC: N/A''
       = init_window 0"
proof -
  have d: "invalid_reading (voltage dead)" by (simp add: dead_def invalid_reading_def)
  from unparseable_message_ignored [of dead init_monitor
      "''Voltage: Battery Disconnected, Current: N/A, SoC: N/A''" "init_window 0" 5] d
  show ?thesis by simp
qed

section \<open>The remaining time\<close>

lemma hundredth: "fl64 (1 / 100) = 5764607523034235 / 2 ^ 59"
  by (simp add: fl64_eval)

lemma milli5: "fl64 (5 / 1000) = 5764607523034235 / 2 ^ 60"
  by (simp add: fl64_eval)

lemma hours_half: "hours_left 50 (1 / 2) = 10"
  by (simp add: hours_left_def battery_capacity_def fdiv_def fmul_def fl64_eval)

lemma hours_five: "hours_left 50 5 = 1"
  by (simp add: hours_left_def battery_capacity_def fdiv_def fmul_def fl64_eval)

lemmas label_eval =
  update_time_left_def py_int_def py_mod_def fmul_def str_int_def str_nat_digit str_nat_more
  digit_char_def Let_def

lemma label_small: "time_left_label (update_time_left w 50 (fl64 (5 / 1000))) = ''Time Left: N/A''"
  unfolding milli5 by (simp add: update_time_left_def hundredth)

lemma label_half: "time_left_label (update_time_left w 50 (1 / 2)) = ''Time Left: 10 h 0 min 0 s''"
  unfolding update_time_left_def hours_half hundredth by (simp add: label_eval fl64_eval)

lemma label_five: "time_left_label (update_time_left w 50 5) = ''Time Left: 1 h 0 min 0 s''"
  unfolding update_time_left_def hours_five hundredth by (simp add: label_eval fl64_eval)

text \<open>
  C2 (as amended). With a current of 0.005 A and 50 % the label is \<open>Time Left: N/A\<close>.
  With 0.5 A, 50 % and the capacity of 10 Ah, \<open>hours_left\<close> is 10.0 and the label is
  \<open>Time Left: 10 h 0 min 0 s\<close>. (With 5 A, \<open>hours_left\<close> is 1.0 and the label is
  \<open>Time Left: 1 h 0 min 0 s\<close>.)
\<close>

theorem time_left_examples:
  "time_left_label (update_time_left w 50 (fl64 (5 / 1000))) = ''Time Left: N/A''
   \<and> hours_left 50 (1 / 2) = 10
   \<and> time_left_label (update_time_left w 50 (1 / 2)) = ''Time Left: 10 h 0 min 0 s''
   \<and> hours_left 50 5 = 1
   \<and> time_left_label (update_time_left w 50 5) = ''Time Left: 1 h 0 min 0 s''"
  using label_small label_half label_five hours_half hours_five by simp

text \<open>
  C2 as stated has \<open>hours_left = 1.0\<close>, shown as \<open>60 min 0 s\<close> or \<open>1 h 0 min 0 s\<close>, for
  0.5 A, 50 % and 10 Ah.
\<close>

theorem time_left_half_amp_not_one_hour:
  "hours_left 50 (1 / 2) \<noteq> 1
   \<and> time_left_label (update_time_left (init_window 0) 50 (1 / 2)) \<noteq> ''Time Left: 60 min 0 s''
   \<and> time_left_label (update_time_left (init_window 0) 50 (1 / 2)) \<noteq> ''Time Left: 1 h 0 min 0 s''"
proof -
  have "hours_left 50 (1 / 2) = 10"
    by (simp add: hours_left_def battery_capacity_def fdiv_def fmul_def fl64_eval)
  moreover have "time_left_label (update_time_left (init_window 0) 50 (1 / 2)) = ''Time Left: 10 h 0 min 0 s''"
    unfolding update_time_left_def hours_half hundredth by (simp add: label_eval fl64_eval)
  ultimately show ?thesis by simp
qed

section \<open>Smoothing\<close>

lemma update_time_left_fields:
  "time_data (update_time_left w s c) = time_data w"
  "voltage_data (update_time_left w s c) = voltage_data w"
  "current_data (update_time_left w s c) = current_data w"
  "soc_data (update_time_left w s c) = soc_data w"
  "filtered_soc (update_time_left w s c) = filtered_soc w"
  "start_time (update_time_left w s c) = start_time w"
  by (simp_all add: update_time_left_def Let_def)

lemma record_sample_filtered:
  "filtered_soc (record_sample w now v c x) =
     Some (case filtered_soc w of None \<Rightarrow> x | Some prev \<Rightarrow> smooth x prev)"
  by (simp add: record_sample_def Let_def update_time_left_fields)

lemma smooth_eq: "smooth x prev = fadd (fmul alpha x) (fmul (fsub 1 alpha) prev)"
  by (simp add: smooth_def smooth_with_def alpha_def fadd_def fmul_def fsub_def Let_def)

lemma smooth_exact: "smooth_with id x f = 2 / 10 * x + (1 - 2 / 10) * f"
  by (simp add: smooth_with_def)

lemma smooth_exact_step: "smooth_with id x f - x = (1 - 2 / 10) * (f - x)"
  by (simp add: smooth_exact algebra_simps)

lemma smooth_exact_closed: "(smooth_with id x ^^ n) f0 - x = (1 - 2 / 10) ^ n * (f0 - x)"
proof (induction n)
  case 0
  show ?case by simp
next
  case (Suc n)
  have "(smooth_with id x ^^ Suc n) f0 - x = smooth_with id x ((smooth_with id x ^^ n) f0) - x"
    by (simp only: funpow.simps o_apply)
  also have "\<dots> = (1 - 2 / 10) * ((smooth_with id x ^^ n) f0 - x)"
    by (rule smooth_exact_step)
  also have "\<dots> = (1 - 2 / 10) ^ Suc n * (f0 - x)"
    unfolding Suc by simp
  finally show ?case .
qed

lemma alpha_val: "alpha = 7205759403792794 / 2 ^ 55"
  by (simp add: alpha_def fl64_eval)

lemma one_minus_alpha: "fsub 1 alpha = 7205759403792794 / 2 ^ 53"
  unfolding alpha_val by (simp add: fsub_def fl64_eval)

text \<open>The relative error of one rounding is at most \<open>2^-53\<close>.\<close>

lemma round_even_err: "\<bar>of_int (round_even z) - z\<bar> \<le> 1 / 2"
proof -
  have "of_int \<lfloor>z\<rfloor> \<le> z" "z < of_int \<lfloor>z\<rfloor> + 1" by linarith+
  then show ?thesis by (auto simp add: round_even_def Let_def)
qed

lemma fl64_err_pos:
  assumes "0 < y"
  shows "\<bar>fl64 y - y\<bar> \<le> y / 2 ^ 53"
proof -
  define w :: real where "w = 2 powi (expo y - 52)"
  define r where "r = round_even (y / w)"
  have w: "0 < w" by (simp add: w_def)
  have f: "fl64 y = of_int r * w" using assms by (simp add: fl64_def w_def r_def Let_def)
  have "\<bar>of_int r * w - y\<bar> = \<bar>of_int r - y / w\<bar> * w"
  proof -
    have "of_int r * w - y = (of_int r - y / w) * w" using w by (simp add: field_simps)
    then show ?thesis using w by (simp add: abs_mult)
  qed
  also have "\<dots> \<le> 1 / 2 * w"
    using round_even_err [of "y / w"] w unfolding r_def by (intro mult_right_mono) simp_all
  also have "1 / 2 * w = 2 powi expo y / 2 ^ 53"
    by (simp add: w_def power_int_diff)
  also have "\<dots> \<le> y / 2 ^ 53"
    using expo_bounds [OF assms] by (simp add: divide_right_mono)
  finally show ?thesis unfolding f .
qed

lemma fl64_err: "\<bar>fl64 y - y\<bar> \<le> \<bar>y\<bar> / 2 ^ 53"
proof -
  consider "0 < y" | "y = 0" | "y < 0" by linarith
  then show ?thesis
  proof cases
    case 1
    then show ?thesis using fl64_err_pos [of y] by simp
  next
    case 2
    then show ?thesis by (simp add: fl64_zero)
  next
    case 3
    then have "\<bar>fl64 (- y) - (- y)\<bar> \<le> (- y) / 2 ^ 53" by (intro fl64_err_pos) simp
    then show ?thesis using 3 by (simp add: fl64_minus abs_minus_commute)
  qed
qed

text \<open>The rounded step against the exact step, and the iterates against the closed form.\<close>

lemma smooth_unfold:
  "smooth x f =
     fl64 (fl64 (7205759403792794 / 2 ^ 55 * x) + fl64 (7205759403792794 / 2 ^ 53 * f))"
  unfolding smooth_eq one_minus_alpha unfolding alpha_val by (simp only: fadd_def fmul_def)

lemma smooth_step_err:
  assumes x: "\<bar>x\<bar> \<le> B" and f: "\<bar>f\<bar> \<le> B"
  shows "\<bar>smooth x f - (2 / 10 * x + (1 - 2 / 10) * f)\<bar> \<le> 3 * B / 2 ^ 53"
proof -
  define a :: real where "a = 7205759403792794 / 2 ^ 55"
  define b :: real where "b = 7205759403792794 / 2 ^ 53"
  define u :: real where "u = 1 / 2 ^ 53"
  define p1 where "p1 = fl64 (a * x)"
  define p2 where "p2 = fl64 (b * f)"
  have B: "0 \<le> B" using x by linarith
  have a: "0 \<le> a" "1 / 5 \<le> a" and b: "0 \<le> b" "4 / 5 \<le> b" and u: "0 \<le> u"
    by (simp_all add: a_def b_def u_def)
  have s: "smooth x f = fl64 (p1 + p2)"
    by (simp only: smooth_unfold p1_def p2_def a_def b_def)
  have ax: "\<bar>a * x\<bar> \<le> a * B" using a x by (simp add: abs_mult mult_left_mono)
  have bf: "\<bar>b * f\<bar> \<le> b * B" using b f by (simp add: abs_mult mult_left_mono)
  have "\<bar>p1 - a * x\<bar> \<le> \<bar>a * x\<bar> * u" using fl64_err [of "a * x"] by (simp add: p1_def u_def)
  also have "\<dots> \<le> a * B * u" using ax u by (rule mult_right_mono)
  finally have h1: "\<bar>p1 - a * x\<bar> \<le> a * B * u" .
  have "\<bar>p2 - b * f\<bar> \<le> \<bar>b * f\<bar> * u" using fl64_err [of "b * f"] by (simp add: p2_def u_def)
  also have "\<dots> \<le> b * B * u" using bf u by (rule mult_right_mono)
  finally have h2: "\<bar>p2 - b * f\<bar> \<le> b * B * u" .
  have h3: "\<bar>p1 + p2\<bar> \<le> a * B * u + a * B + (b * B * u + b * B)"
    using h1 h2 ax bf by linarith
  have "\<bar>fl64 (p1 + p2) - (p1 + p2)\<bar> \<le> \<bar>p1 + p2\<bar> * u"
    using fl64_err [of "p1 + p2"] by (simp add: u_def)
  also have "\<dots> \<le> (a * B * u + a * B + (b * B * u + b * B)) * u"
    using h3 u by (rule mult_right_mono)
  finally have h4: "\<bar>fl64 (p1 + p2) - (p1 + p2)\<bar> \<le> (a * B * u + a * B + (b * B * u + b * B)) * u" .
  have "\<bar>(a - 1 / 5) * x\<bar> \<le> (a - 1 / 5) * B" using a x by (simp add: abs_mult mult_left_mono)
  moreover have "\<bar>(b - 4 / 5) * f\<bar> \<le> (b - 4 / 5) * B" using b f by (simp add: abs_mult mult_left_mono)
  moreover have "a * x + b * f - (1 / 5 * x + 4 / 5 * f) = (a - 1 / 5) * x + (b - 4 / 5) * f"
    by (simp add: algebra_simps)
  ultimately have h5: "\<bar>a * x + b * f - (1 / 5 * x + 4 / 5 * f)\<bar> \<le> (a - 1 / 5) * B + (b - 4 / 5) * B"
    by linarith
  have "\<bar>fl64 (p1 + p2) - (1 / 5 * x + 4 / 5 * f)\<bar>
      \<le> (a * B * u + a * B + (b * B * u + b * B)) * u + a * B * u + b * B * u
        + ((a - 1 / 5) * B + (b - 4 / 5) * B)"
    using h1 h2 h4 h5 by linarith
  also have "\<dots> = ((a + b) * (1 + u) * u + (a + b) * u + (a - 1 / 5) + (b - 4 / 5)) * B"
    by (simp add: algebra_simps)
  also have "\<dots> \<le> (3 / 2 ^ 53) * B"
  proof (rule mult_right_mono [OF _ B])
    show "(a + b) * (1 + u) * u + (a + b) * u + (a - 1 / 5) + (b - 4 / 5) \<le> 3 / 2 ^ 53"
      by (simp add: a_def b_def u_def)
  qed
  finally show ?thesis unfolding s by simp
qed

lemma smooth_iterate_err:
  "\<bar>(smooth x ^^ n) f0\<bar> \<le> max \<bar>x\<bar> \<bar>f0\<bar> * (1 + 1 / 2 ^ 49)
   \<and> \<bar>(smooth x ^^ n) f0 - x - (4 / 5) ^ n * (f0 - x)\<bar>
       \<le> 15 * (max \<bar>x\<bar> \<bar>f0\<bar> * (1 + 1 / 2 ^ 49)) / 2 ^ 53"
proof -
  define M where "M = max \<bar>x\<bar> \<bar>f0\<bar>"
  define B where "B = M * (1 + 1 / 2 ^ 49)"
  have M: "0 \<le> M" "\<bar>x\<bar> \<le> M" "\<bar>f0\<bar> \<le> M" by (simp_all add: M_def)
  have MB: "M \<le> B" unfolding B_def using M(1) by (simp add: mult_le_cancel_left1)
  have xB: "\<bar>x\<bar> \<le> B" using M(2) MB by linarith
  have c: "1 / 5 * M + 4 / 5 * B + 3 * B / 2 ^ 53 \<le> B"
  proof -
    have "1 / 5 * M + 4 / 5 * B + 3 * B / 2 ^ 53 =
        (1 / 5 + (4 / 5 + 3 / 2 ^ 53) * (1 + 1 / 2 ^ 49)) * M"
      unfolding B_def by (simp add: algebra_simps)
    also have "\<dots> \<le> (1 + 1 / 2 ^ 49) * M"
      by (rule mult_right_mono [OF _ M(1)]) simp
    finally show ?thesis unfolding B_def by (simp add: mult.commute)
  qed
  have "\<bar>(smooth x ^^ n) f0\<bar> \<le> B
        \<and> \<bar>(smooth x ^^ n) f0 - x - (4 / 5) ^ n * (f0 - x)\<bar> \<le> 15 * B / 2 ^ 53"
  proof (induction n)
    case 0
    have "0 \<le> B" "\<bar>f0\<bar> \<le> B" using M MB by linarith+
    then show ?case by simp
  next
    case (Suc n)
    define f where "f = (smooth x ^^ n) f0"
    define q where "q = (4 / 5) ^ n * (f0 - x)"
    define d where "d = f - x - q"
    have q: "(4 / 5) ^ Suc n * (f0 - x) = 4 / 5 * q" by (simp add: q_def)
    from Suc have fB: "\<bar>f\<bar> \<le> B" and E: "\<bar>d\<bar> \<le> 15 * B / 2 ^ 53"
      by (simp_all add: f_def d_def q_def)
    have nx: "(smooth x ^^ Suc n) f0 = smooth x f" by (simp add: f_def)
    have "\<bar>smooth x f - (2 / 10 * x + (1 - 2 / 10) * f)\<bar> \<le> 3 * B / 2 ^ 53"
      using xB fB by (rule smooth_step_err)
    then have st: "\<bar>smooth x f - (1 / 5 * x + 4 / 5 * f)\<bar> \<le> 3 * B / 2 ^ 53" by simp
    have 1: "\<bar>smooth x f\<bar> \<le> B" using st M(2) fB c by linarith
    have "smooth x f - x - (4 / 5) ^ Suc n * (f0 - x) =
        (smooth x f - (1 / 5 * x + 4 / 5 * f)) + 4 / 5 * d"
      unfolding q d_def by (simp add: field_simps)
    then have 2: "\<bar>smooth x f - x - (4 / 5) ^ Suc n * (f0 - x)\<bar> \<le> 15 * B / 2 ^ 53"
      using st E by linarith
    from 1 2 show ?case unfolding nx by blast
  qed
  then show ?thesis unfolding B_def M_def .
qed

lemma smooth_closed_form_err:
  "\<bar>\<bar>(smooth x ^^ n) f0 - x\<bar> - (1 - 2 / 10) ^ n * \<bar>f0 - x\<bar>\<bar> \<le> max \<bar>x\<bar> \<bar>f0\<bar> / 2 ^ 49"
proof -
  define M where "M = max \<bar>x\<bar> \<bar>f0\<bar>"
  have M: "0 \<le> M" by (simp add: M_def)
  have k: "(1 - 2 / 10 :: real) = 4 / 5" by simp
  have "(4 / 5) ^ n * \<bar>f0 - x\<bar> = \<bar>(4 / 5) ^ n * (f0 - x)\<bar>"
    by (simp add: abs_mult)
  then have "\<bar>\<bar>(smooth x ^^ n) f0 - x\<bar> - (4 / 5) ^ n * \<bar>f0 - x\<bar>\<bar>
      \<le> \<bar>(smooth x ^^ n) f0 - x - (4 / 5) ^ n * (f0 - x)\<bar>"
    by (simp only: abs_triangle_ineq3)
  also have "\<dots> \<le> 15 * (M * (1 + 1 / 2 ^ 49)) / 2 ^ 53"
    unfolding M_def by (rule conjunct2 [OF smooth_iterate_err])
  also have "\<dots> = (15 * (1 + 1 / 2 ^ 49) / 2 ^ 53) * M" by (simp add: algebra_simps)
  also have "\<dots> \<le> (1 / 2 ^ 49) * M"
    by (rule mult_right_mono [OF _ M]) simp
  finally show ?thesis unfolding k M_def by simp
qed

text \<open>
  C7 (as amended). A parsed message sets \<open>filtered_soc\<close> to its state of charge when
  there was none, and otherwise to \<open>alpha * soc + (1 - alpha) * previous\<close> with
  \<open>alpha = 0.2\<close>, each operation rounded to binary64. For a constant input \<open>x\<close> from a
  seed \<open>f0\<close>, after \<open>n\<close> updates of the program \<open>|f_n - x|\<close> differs from
  \<open>(1 - 0.2)^n * |f0 - x|\<close> by at most \<open>max(|x|, |f0|) / 2^49\<close>. The same expression in
  exact arithmetic is \<open>0.2 * soc + 0.8 * previous\<close>, and there the two sides are equal.
\<close>

theorem smoothing_spec:
  "(re_search pattern msg = Some g \<and> map py_float g = [Some v, Some c, Some x] \<longrightarrow>
      filtered_soc (handle_new_message w now msg) =
        Some (case filtered_soc w of
                None \<Rightarrow> x
              | Some prev \<Rightarrow> fadd (fmul alpha x) (fmul (fsub 1 alpha) prev)))
   \<and> alpha = fl64 (2 / 10)
   \<and> smooth x f = fadd (fmul alpha x) (fmul (fsub 1 alpha) f)
   \<and> smooth = smooth_with fl64
   \<and> \<bar>\<bar>(smooth x ^^ n) f0 - x\<bar> - (1 - 2 / 10) ^ n * \<bar>f0 - x\<bar>\<bar> \<le> max \<bar>x\<bar> \<bar>f0\<bar> / 2 ^ 49
   \<and> smooth_with id x f = 2 / 10 * x + (1 - 2 / 10) * f
   \<and> \<bar>(smooth_with id x ^^ n) f0 - x\<bar> = (1 - 2 / 10) ^ n * \<bar>f0 - x\<bar>"
proof (intro conjI impI)
  assume "re_search pattern msg = Some g \<and> map py_float g = [Some v, Some c, Some x]"
  then have "handle_new_message w now msg = record_sample w now v c x"
    by (simp add: handle_new_message_def)
  then show "filtered_soc (handle_new_message w now msg) =
        Some (case filtered_soc w of
                None \<Rightarrow> x
              | Some prev \<Rightarrow> fadd (fmul alpha x) (fmul (fsub 1 alpha) prev))"
    by (simp add: record_sample_filtered smooth_eq split: option.splits)
next
  show "alpha = fl64 (2 / 10)" by (rule alpha_def)
next
  show "smooth x f = fadd (fmul alpha x) (fmul (fsub 1 alpha) f)" by (rule smooth_eq)
next
  show "smooth = smooth_with fl64" by (rule smooth_def)
next
  show "\<bar>\<bar>(smooth x ^^ n) f0 - x\<bar> - (1 - 2 / 10) ^ n * \<bar>f0 - x\<bar>\<bar> \<le> max \<bar>x\<bar> \<bar>f0\<bar> / 2 ^ 49"
    by (rule smooth_closed_form_err)
next
  show "smooth_with id x f = 2 / 10 * x + (1 - 2 / 10) * f" by (rule smooth_exact)
next
  show "\<bar>(smooth_with id x ^^ n) f0 - x\<bar> = (1 - 2 / 10) ^ n * \<bar>f0 - x\<bar>"
    unfolding smooth_exact_closed by (simp add: abs_mult)
qed

lemma smooth_twice: "(smooth 1 ^^ 2) 0 = 6485183463413515 / 2 ^ 54"
proof -
  have a: "smooth 1 0 = 7205759403792794 / 2 ^ 55"
    unfolding smooth_eq one_minus_alpha unfolding alpha_val
    by (simp add: fmul_def fadd_def fl64_zero) (simp add: fl64_eval)
  have b: "fmul (7205759403792794 / 2 ^ 53) (7205759403792794 / 2 ^ 55) = 5764607523034236 / 2 ^ 55"
    by (simp add: fmul_def) (simp add: fl64_eval)
  have c: "fmul (7205759403792794 / 2 ^ 55) 1 = 7205759403792794 / 2 ^ 55"
    by (simp add: fmul_def) (simp add: fl64_eval)
  have d: "fadd (7205759403792794 / 2 ^ 55) (5764607523034236 / 2 ^ 55) = 6485183463413515 / 2 ^ 54"
    by (simp add: fadd_def) (simp add: fl64_eval)
  have "smooth 1 (smooth 1 0) = 6485183463413515 / 2 ^ 54"
    unfolding a unfolding smooth_eq one_minus_alpha unfolding alpha_val c b d by (rule refl)
  then show ?thesis by (simp add: numeral_2_eq_2)
qed

text \<open>
  C7 as stated has \<open>|f_n - x| == (1 - alpha)^n * |f0 - x|\<close> for the filter of the program.
  With \<open>x = 1\<close>, \<open>f0 = 0\<close> and \<open>n = 2\<close> the binary64 filter gives 0.36000000000000004: the
  two sides differ (by about \<open>2^-53\<close>), whether the right-hand side is taken with the
  float \<open>alpha\<close>, with the number 0.2, or evaluated in binary64 itself.
\<close>

theorem smoothing_closed_form_not_exact:
  "\<bar>(smooth 1 ^^ 2) 0 - 1\<bar> \<noteq> (1 - alpha) ^ 2 * \<bar>0 - 1\<bar>
   \<and> \<bar>(smooth 1 ^^ 2) 0 - 1\<bar> \<noteq> (1 - 2 / 10) ^ 2 * \<bar>0 - 1\<bar>
   \<and> \<bar>fsub ((smooth 1 ^^ 2) 0) 1\<bar> \<noteq> fmul (fmul (fsub 1 alpha) (fsub 1 alpha)) \<bar>fsub 0 1\<bar>"
proof -
  have e: "fsub (6485183463413515 / 2 ^ 54) 1 = - (5764607523034234 / 2 ^ 53)"
    by (simp add: fsub_def) (simp add: fl64_eval)
  have f: "fmul (7205759403792794 / 2 ^ 53) (7205759403792794 / 2 ^ 53) = 5764607523034236 / 2 ^ 53"
    by (simp add: fmul_def) (simp add: fl64_eval)
  have g: "fsub 0 1 = - 1" by (simp add: fsub_def fl64_minus fl64_1)
  have h: "fmul (5764607523034236 / 2 ^ 53) \<bar>- 1\<bar> = 5764607523034236 / 2 ^ 53"
    by (simp add: fmul_def) (simp add: fl64_eval)
  have 1: "\<bar>(smooth 1 ^^ 2) 0 - 1\<bar> \<noteq> (1 - alpha) ^ 2 * \<bar>0 - 1\<bar>"
    unfolding smooth_twice alpha_val by (simp add: power2_eq_square)
  have 2: "\<bar>(smooth 1 ^^ 2) 0 - 1\<bar> \<noteq> (1 - 2 / 10) ^ 2 * \<bar>0 - 1\<bar>"
    unfolding smooth_twice by (simp add: power2_eq_square)
  have 3: "\<bar>fsub ((smooth 1 ^^ 2) 0) 1\<bar> \<noteq> fmul (fmul (fsub 1 alpha) (fsub 1 alpha)) \<bar>fsub 0 1\<bar>"
    unfolding smooth_twice one_minus_alpha e f g h by simp
  from 1 2 3 show ?thesis by blast
qed

section \<open>The rolling window\<close>

lemma slice_last_length: "0 < n \<Longrightarrow> length (slice_last n xs) = min n (length xs)"
  by (auto simp add: slice_last_def)

lemma slice_last_evict:
  "0 < n \<Longrightarrow> length xs = n \<Longrightarrow> slice_last n (xs @ [a]) = tl xs @ [a]"
  by (cases xs) (simp_all add: slice_last_def)

lemma record_sample_lists:
  "time_data (record_sample w now v c x) =
     (if max_points < length (time_data w) + 1
      then slice_last max_points (time_data w @ [fsub now (start_time w)])
      else time_data w @ [fsub now (start_time w)])"
  "voltage_data (record_sample w now v c x) =
     (if max_points < length (time_data w) + 1
      then slice_last max_points (voltage_data w @ [v])
      else voltage_data w @ [v])"
  "current_data (record_sample w now v c x) =
     (if max_points < length (time_data w) + 1
      then slice_last max_points (current_data w @ [c])
      else current_data w @ [c])"
  "soc_data (record_sample w now v c x) =
     (if max_points < length (time_data w) + 1
      then slice_last max_points
             (soc_data w @ [case filtered_soc w of None \<Rightarrow> x | Some prev \<Rightarrow> smooth x prev])
      else soc_data w @ [case filtered_soc w of None \<Rightarrow> x | Some prev \<Rightarrow> smooth x prev])"
  by (simp_all add: record_sample_def Let_def update_time_left_fields)

lemma record_sample_inv: "window_inv w \<Longrightarrow> window_inv (record_sample w now v c x)"
  by (auto simp add: window_inv_def record_sample_lists slice_last_length max_points_def)

lemma handle_inv: "window_inv w \<Longrightarrow> window_inv (handle_new_message w now msg)"
  by (auto simp add: handle_new_message_def record_sample_inv
      split: option.splits list.splits)

lemma receive_inv: "window_inv w \<Longrightarrow> window_inv (receive w ms)"
  by (induction w ms rule: receive.induct) (simp_all add: handle_inv)

lemma init_inv: "window_inv (init_window t0)"
  by (simp add: window_inv_def init_window_def)

text \<open>
  C8. After any sequence of messages from the initial window each of the four histories
  holds at most \<open>max_points = 300\<close> entries; a parsed message arriving when they hold 300
  entries appends the new point to each and drops exactly the entry at index 0, the
  others keeping their order.
\<close>

theorem rolling_window_bounded:
  "length (time_data (receive (init_window t0) ms)) \<le> max_points
   \<and> length (voltage_data (receive (init_window t0) ms)) \<le> max_points
   \<and> length (current_data (receive (init_window t0) ms)) \<le> max_points
   \<and> length (soc_data (receive (init_window t0) ms)) \<le> max_points
   \<and> max_points = 300
   \<and> (re_search pattern msg = Some g \<and> map py_float g = [Some v, Some c, Some x]
        \<and> length (time_data w) = max_points \<and> length (voltage_data w) = max_points
        \<and> length (current_data w) = max_points \<and> length (soc_data w) = max_points
      \<longrightarrow> time_data (handle_new_message w now msg) = tl (time_data w) @ [fsub now (start_time w)]
          \<and> voltage_data (handle_new_message w now msg) = tl (voltage_data w) @ [v]
          \<and> current_data (handle_new_message w now msg) = tl (current_data w) @ [c]
          \<and> soc_data (handle_new_message w now msg) =
               tl (soc_data w) @ [case filtered_soc w of None \<Rightarrow> x | Some prev \<Rightarrow> smooth x prev])"
proof -
  have "window_inv (receive (init_window t0) ms)" using init_inv by (rule receive_inv)
  then have a: "length (time_data (receive (init_window t0) ms)) \<le> max_points
   \<and> length (voltage_data (receive (init_window t0) ms)) \<le> max_points
   \<and> length (current_data (receive (init_window t0) ms)) \<le> max_points
   \<and> length (soc_data (receive (init_window t0) ms)) \<le> max_points"
    by (simp add: window_inv_def)
  have b: "time_data (handle_new_message w now msg) = tl (time_data w) @ [fsub now (start_time w)]
          \<and> voltage_data (handle_new_message w now msg) = tl (voltage_data w) @ [v]
          \<and> current_data (handle_new_message w now msg) = tl (current_data w) @ [c]
          \<and> soc_data (handle_new_message w now msg) =
               tl (soc_data w) @ [case filtered_soc w of None \<Rightarrow> x | Some prev \<Rightarrow> smooth x prev]"
    if h: "re_search pattern msg = Some g \<and> map py_float g = [Some v, Some c, Some x]
        \<and> length (time_data w) = max_points \<and> length (voltage_data w) = max_points
        \<and> length (current_data w) = max_points \<and> length (soc_data w) = max_points"
  proof -
    from h have "handle_new_message w now msg = record_sample w now v c x"
      by (simp add: handle_new_message_def)
    moreover have "0 < max_points" by (simp add: max_points_def)
    ultimately show ?thesis using h by (simp add: record_sample_lists slice_last_evict)
  qed
  from a b show ?thesis by (simp add: max_points_def)
qed

section \<open>Parsed messages\<close>

lemmas float_eval = py_float_def digits_val_def digit_val_def Let_def

lemma search_steady:
  "re_search pattern ''Voltage: 12.000 V, Current: 1.000000 A, SoC: 0.0%'' =
     Some [''12.000'', ''1.000000'', ''0.0'']"
  by (simp add: search_eval)

lemma search_stuck:
  "re_search pattern ''Voltage: 15.000 V, Current: 1.000000 A, SoC: 9.8%'' =
     Some [''15.000'', ''1.000000'', ''9.8'']"
  by (simp add: search_eval)

lemma floats_steady: "map py_float [''12.000'', ''1.000000'', ''0.0''] = [Some 12, Some 1, Some 0]"
  by (simp add: float_eval fl64_zero) (simp add: fl64_eval)

lemma floats_stuck:
  "map py_float [''15.000'', ''1.000000'', ''9.8''] = [Some 15, Some 1, Some (fl64 (98 / 10))]"
  by (simp add: float_eval) (simp add: fl64_eval)

theorem smoothing_spec_witness:
  "filtered_soc (init_window 0) = None
   \<and> filtered_soc
        (handle_new_message (init_window 0) 1 ''Voltage: 12.000 V, Current: 1.000000 A, SoC: 0.0%'')
       = Some 0
   \<and> filtered_soc
        (handle_new_message
          (handle_new_message (init_window 0) 1 ''Voltage: 12.000 V, Current: 1.000000 A, SoC: 0.0%'')
          2 ''Voltage: 15.000 V, Current: 1.000000 A, SoC: 9.8%'')
       = Some (fadd (fmul alpha (fl64 (98 / 10))) (fmul (fsub 1 alpha) 0))
   \<and> \<bar>\<bar>(smooth 1 ^^ 2) 0 - 1\<bar> - (1 - 2 / 10) ^ 2 * \<bar>0 - 1\<bar>\<bar> \<le> max \<bar>1\<bar> \<bar>0\<bar> / 2 ^ 49"
proof -
  let ?w1 = "handle_new_message (init_window 0) 1 ''Voltage: 12.000 V, Current: 1.000000 A, SoC: 0.0%''"
  have n: "filtered_soc (init_window 0) = None" by (simp add: init_window_def)
  from smoothing_spec [of "''Voltage: 12.000 V, Current: 1.000000 A, SoC: 0.0%''"
      "[''12.000'', ''1.000000'', ''0.0'']" 12 1 0 "init_window 0" 1]
    search_steady floats_steady n
  have 1: "filtered_soc ?w1 = Some 0" by simp
  from smoothing_spec [of "''Voltage: 15.000 V, Current: 1.000000 A, SoC: 9.8%''"
      "[''15.000'', ''1.000000'', ''9.8'']" 15 1 "fl64 (98 / 10)" ?w1 2]
    search_stuck floats_stuck 1
  have 2: "filtered_soc (handle_new_message ?w1 2 ''Voltage: 15.000 V, Current: 1.000000 A, SoC: 9.8%'')
       = Some (fadd (fmul alpha (fl64 (98 / 10))) (fmul (fsub 1 alpha) 0))" by simp
  from smoothing_spec [where x = 1 and n = 2 and ?f0.0 = 0]
  have 3: "\<bar>\<bar>(smooth 1 ^^ 2) 0 - 1\<bar> - (1 - 2 / 10) ^ 2 * \<bar>0 - 1\<bar>\<bar> \<le> max \<bar>1\<bar> \<bar>0\<bar> / 2 ^ 49"
    by blast
  from n 1 2 3 show ?thesis by blast
qed

theorem rolling_window_bounded_witness:
  "length (time_data full_window) = 300
   \<and> time_data (handle_new_message full_window 300 ''Voltage: 12.000 V, Current: 1.000000 A, SoC: 0.0%'')
       = tl (time_data full_window) @ [300]
   \<and> voltage_data (handle_new_message full_window 300 ''Voltage: 12.000 V, Current: 1.000000 A, SoC: 0.0%'')
       = tl (voltage_data full_window) @ [12]
   \<and> length (time_data (handle_new_message full_window 300
         ''Voltage: 12.000 V, Current: 1.000000 A, SoC: 0.0%'')) = 300
   \<and> length (time_data (receive (init_window 0)
         [(1, ''Voltage: 12.000 V, Current: 1.000000 A, SoC: 0.0%'')])) \<le> 300"
proof -
  let ?m = "''Voltage: 12.000 V, Current: 1.000000 A, SoC: 0.0%''"
  have l: "length (time_data full_window) = max_points" "length (voltage_data full_window) = max_points"
    "length (current_data full_window) = max_points" "length (soc_data full_window) = max_points"
    by (simp_all add: full_window_def max_points_def)
  have st: "start_time full_window = 0" by (simp add: full_window_def)
  have f: "fsub 300 0 = 300" by (simp add: fsub_def fl64_eval)
  note t = rolling_window_bounded [of 0 "[(1, ?m)]" ?m "[''12.000'', ''1.000000'', ''0.0'']" 12 1 0
      full_window 300]
  from t search_steady floats_steady l
  have 1: "time_data (handle_new_message full_window 300 ?m) = tl (time_data full_window) @ [300]"
    and 2: "voltage_data (handle_new_message full_window 300 ?m) = tl (voltage_data full_window) @ [12]"
    by (simp_all add: st f)
  from t have 3: "length (time_data (receive (init_window 0) [(1, ?m)])) \<le> 300" by simp
  have 4: "length (time_data (handle_new_message full_window 300 ?m)) = 300"
    unfolding 1 using l(1) by (simp add: max_points_def)
  from l(1) 1 2 3 4 show ?thesis by (simp add: max_points_def)
qed

end
